theory Spec2Isabelle
  imports Main "HOL-Library.Word" "HOL-Library.Signed_Division" "HOL-Library.Multiset"
    "HOL-Library.AList"
begin

unbundle bit_operations_syntax

section \<open>Errors\<close>

text \<open>
  The Go code returns \<^verbatim>\<open>error\<close> values: an \<^verbatim>\<open>*HttpError\<close>, or any other error
  (\<^verbatim>\<open>fmt.Errorf\<close>, an error of a collaborator), here an \<open>Errorf\<close> with its message.

  Modelled from the spec: the type \<^verbatim>\<open>HttpError\<close> and its constructors \<^verbatim>\<open>NewHttpError\<close> and
  \<^verbatim>\<open>TooManyRequestsError\<close> are not among the source files.  Section 7 of the spec: an
  HttpError carries a status code and a JSON body, and TooManyRequestsError(retryAfter) is
  the HttpError for 429.  The body is kept as what the document carries: the status text
  alone, or the retry-after seconds.
\<close>

datatype errorBody = StatusText | RetrySeconds int

datatype error =
    HttpError (errStatusCode: nat) (errBody: errorBody)
  | Errorf string

definition StatusBadRequest :: nat where "StatusBadRequest = 400"
definition StatusTooManyRequests :: nat where "StatusTooManyRequests = 429"
definition StatusInternalServerError :: nat where "StatusInternalServerError = 500"
definition StatusBadGateway :: nat where "StatusBadGateway = 502"

definition NewHttpError :: "nat \<Rightarrow> error" where
  "NewHttpError code = HttpError code StatusText"

definition TooManyRequestsError :: "int \<Rightarrow> error" where
  "TooManyRequestsError retrySeconds = HttpError StatusTooManyRequests (RetrySeconds retrySeconds)"

section \<open>Proxy settings (proxy.go)\<close>

text \<open>\<^verbatim>\<open>time.Duration\<close> is a count of nanoseconds (int64); only comparisons with zero
  and the constant ten seconds occur, so no arithmetic can overflow here.\<close>

type_synonym duration = int

definition Second :: duration where "Second = 1000000000"

definition DefaultHttpReadTimeout :: duration where
  "DefaultHttpReadTimeout = 10 * Second"

definition DefaultHttpDialTimeout :: duration where
  "DefaultHttpDialTimeout = 10 * Second"

text \<open>The two interface-typed fields may be nil: \<open>None\<close>.\<close>

record ('b, 'l) ProxySettings =
  ControlServers :: "string list"
  ThrottlerBackend :: "'b option"
  LoadBalancer :: "'l option"
  HttpReadTimeout :: duration
  HttpDialTimeout :: duration

text \<open>
  \<^verbatim>\<open>validateProxySettings\<close> takes a pointer (\<open>None\<close> is nil) and updates the struct in
  place; the model returns the updated struct.  The second test reads
  \<^verbatim>\<open>s.HttpReadTimeout\<close> again, exactly as line 330 of proxy.go does.
\<close>

definition validateProxySettings ::
  "('b, 'l) ProxySettings option \<Rightarrow> error + ('b, 'l) ProxySettings" where
  "validateProxySettings sp =
     (case sp of
        None \<Rightarrow> Inl (Errorf ''Provide proxy settings'')
      | Some s \<Rightarrow>
          if length (ControlServers s) = 0 then Inl (Errorf ''Supply at least one control server'')
          else if ThrottlerBackend s = None then Inl (Errorf ''Backend can not be nil'')
          else if LoadBalancer s = None then Inl (Errorf ''Load balancer can not be nil'')
          else
            let s1 = (if HttpReadTimeout s = 0
                      then s\<lparr>HttpReadTimeout := DefaultHttpReadTimeout\<rparr> else s);
                s2 = (if HttpReadTimeout s1 = 0
                      then s1\<lparr>HttpDialTimeout := DefaultHttpDialTimeout\<rparr> else s1)
            in Inr s2)"

section \<open>HTTP headers (net/http, net/textproto)\<close>

text \<open>
  \<^verbatim>\<open>http.Header\<close> is a \<^verbatim>\<open>map[string][]string\<close>.  It is modelled as an association
  list, whose order stands for the order in which \<^verbatim>\<open>range\<close> visits the entries; lookups
  go through \<open>map_of\<close>.  The methods \<^verbatim>\<open>Get\<close>, \<^verbatim>\<open>Add\<close>, \<^verbatim>\<open>Set\<close> and \<^verbatim>\<open>Del\<close>
  canonicalise the key with \<^verbatim>\<open>textproto.CanonicalMIMEHeaderKey\<close>: the first letter and
  every letter after a hyphen in upper case, all other letters in lower case, and a key
  holding a byte that is no token character left as it is.
\<close>

type_synonym header = "(string \<times> string list) list"

definition isLower :: "char \<Rightarrow> bool" where
  "isLower c = (97 \<le> (of_char c :: nat) \<and> (of_char c :: nat) \<le> 122)"

definition isUpper :: "char \<Rightarrow> bool" where
  "isUpper c = (65 \<le> (of_char c :: nat) \<and> (of_char c :: nat) \<le> 90)"

definition isDigit :: "char \<Rightarrow> bool" where
  "isDigit c = (48 \<le> (of_char c :: nat) \<and> (of_char c :: nat) \<le> 57)"

definition toUpper :: "char \<Rightarrow> char" where
  "toUpper c = char_of ((of_char c :: nat) - 32)"

definition toLower :: "char \<Rightarrow> char" where
  "toLower c = char_of ((of_char c :: nat) + 32)"

definition validHeaderFieldByte :: "char \<Rightarrow> bool" where
  "validHeaderFieldByte c =
     (isLower c \<or> isUpper c \<or> isDigit c \<or> c \<in> set ''!#$%&*+-.^_`|~'' \<or> of_char c = (39 :: nat))"

definition canonByte :: "bool \<Rightarrow> char \<Rightarrow> char" where
  "canonByte upper c =
     (if upper \<and> isLower c then toUpper c
      else if \<not> upper \<and> isUpper c then toLower c
      else c)"

fun canonFrom :: "bool \<Rightarrow> string \<Rightarrow> string" where
  "canonFrom upper [] = []"
| "canonFrom upper (c # cs) =
     canonByte upper c # canonFrom (canonByte upper c = CHR ''-'') cs"

definition CanonicalMIMEHeaderKey :: "string \<Rightarrow> string" where
  "CanonicalMIMEHeaderKey s =
     (if list_all validHeaderFieldByte s then canonFrom True s else s)"

definition Header_Get :: "header \<Rightarrow> string \<Rightarrow> string" where
  "Header_Get h key =
     (case map_of h (CanonicalMIMEHeaderKey key) of
        None \<Rightarrow> []
      | Some vs \<Rightarrow> (case vs of [] \<Rightarrow> [] | v # _ \<Rightarrow> v))"

definition Header_Add :: "header \<Rightarrow> string \<Rightarrow> string \<Rightarrow> header" where
  "Header_Add h key v =
     (let k = CanonicalMIMEHeaderKey key
      in AList.update k ((case map_of h k of None \<Rightarrow> [] | Some vs \<Rightarrow> vs) @ [v]) h)"

definition Header_Set :: "header \<Rightarrow> string \<Rightarrow> string \<Rightarrow> header" where
  "Header_Set h key v = AList.update (CanonicalMIMEHeaderKey key) [v] h"

definition Header_Del :: "header \<Rightarrow> string \<Rightarrow> header" where
  "Header_Del h key = AList.delete (CanonicalMIMEHeaderKey key) h"

text \<open>The hop-by-hop header table of proxy.go, lines 79 to 88.\<close>

definition hopHeaders :: "string list" where
  "hopHeaders =
     [''Connection'', ''Keep-Alive'', ''Proxy-Authenticate'', ''Proxy-Authorization'',
      ''Te'', ''Trailers'', ''Transfer-Encoding'', ''Upgrade'']"

text \<open>
  Modelled from the spec: the header utilities \<^verbatim>\<open>copyHeaders\<close>, \<^verbatim>\<open>hasHeaders\<close> and
  \<^verbatim>\<open>removeHeaders\<close> of package vulcan (and \<^verbatim>\<open>netutils.CopyHeaders\<close>,
  \<^verbatim>\<open>netutils.RemoveHeaders\<close>, which the location calls) are not among the source files.
  The spec gives them as "Copy/remove hop-by-hop headers": copying adds every value of
  every entry of the source to the destination, removing deletes each listed name, and
  \<^verbatim>\<open>hasHeaders\<close> reports whether a listed name has a value.
\<close>

definition copyHeaders :: "header \<Rightarrow> header \<Rightarrow> header" where
  "copyHeaders dst src =
     fold (\<lambda>(k, vv) d. fold (\<lambda>v d'. Header_Add d' k v) vv d) src dst"

definition hasHeaders :: "string list \<Rightarrow> header \<Rightarrow> bool" where
  "hasHeaders names h = list_ex (\<lambda>n. Header_Get h n \<noteq> []) names"

definition removeHeaders :: "string list \<Rightarrow> header \<Rightarrow> header" where
  "removeHeaders names h = fold (\<lambda>n d. Header_Del d n) names h"

text \<open>
  Modelled from the spec: the constants of package headers are not among the source
  files; section 4.10 of the spec names the forwarding headers and lists the hop-by-hop
  headers, the same eight names as \<open>hopHeaders\<close>.
\<close>

definition HopHeaders :: "string list" where
  "HopHeaders =
     [''Connection'', ''Keep-Alive'', ''Proxy-Authenticate'', ''Proxy-Authorization'',
      ''Te'', ''Trailers'', ''Transfer-Encoding'', ''Upgrade'']"

definition XForwardedFor :: string where "XForwardedFor = ''X-Forwarded-For''"
definition XForwardedProto :: string where "XForwardedProto = ''X-Forwarded-Proto''"
definition XForwardedHost :: string where "XForwardedHost = ''X-Forwarded-Host''"
definition XForwardedServer :: string where "XForwardedServer = ''X-Forwarded-Server''"

section \<open>Requests and the objects they point to\<close>

text \<open>
  An \<^verbatim>\<open>http.Request\<close> holds pointers: \<^verbatim>\<open>URL\<close> is a \<^verbatim>\<open>*url.URL\<close>, \<^verbatim>\<open>Header\<close> is a
  map (a reference), \<^verbatim>\<open>Body\<close> is a reader object.  The struct copy
  \<^verbatim>\<open>*outReq = *req\<close> copies these references, so the objects are kept in a store and the
  request fields are addresses.  \<open>nextRef\<close> is the next unused address: \<^verbatim>\<open>make\<close> and
  \<^verbatim>\<open>&Buffer{...}\<close> take it.  \<open>sent\<close> lists what the transport was handed, oldest first.
\<close>

type_synonym ref = nat
type_synonym bytes = "8 word list"

record url =
  Scheme :: string
  Host :: string
  Path :: string
  RawQuery :: string

record reader =
  rdata :: bytes
  rpos :: nat
  rbroken :: bool

record wire =
  wireURL :: url
  wireHeader :: header
  wireBody :: bytes

record world =
  urls :: "ref \<Rightarrow> url"
  headers :: "ref \<Rightarrow> header"
  bodies :: "ref \<Rightarrow> reader"
  nextRef :: ref
  sent :: "wire list"

record request =
  reqURL :: ref
  Proto :: string
  ProtoMajor :: int
  ProtoMinor :: int
  Close :: bool
  reqHeader :: ref
  reqBody :: ref
  reqHost :: string
  RemoteAddr :: string
  TLS :: bool

text \<open>An \<^verbatim>\<open>Upstream\<close> of package vulcan: its URL is a pointer, its headers may be nil.\<close>

record upstream =
  upUrl :: ref
  upHeaders :: "header option"

definition setURL :: "ref \<Rightarrow> (url \<Rightarrow> url) \<Rightarrow> world \<Rightarrow> world" where
  "setURL a f w = w\<lparr>urls := (urls w)(a := f (urls w a))\<rparr>"

definition setHeader :: "ref \<Rightarrow> (header \<Rightarrow> header) \<Rightarrow> world \<Rightarrow> world" where
  "setHeader a f w = w\<lparr>headers := (headers w)(a := f (headers w a))\<rparr>"

definition makeHeader :: "world \<Rightarrow> ref \<times> world" where
  "makeHeader w = (nextRef w, w\<lparr>headers := (headers w)(nextRef w := []), nextRef := Suc (nextRef w)\<rparr>)"

section \<open>rewriteRequest of the proxy (proxy.go, lines 264 to 296)\<close>

text \<open>
  Each assignment through \<^verbatim>\<open>outReq.URL\<close> writes the URL object that \<^verbatim>\<open>req.URL\<close> points
  to as well, and reads the upstream's URL object as it is at that moment.  The header
  map is allocated only under the test of line 280; otherwise \<^verbatim>\<open>outReq.Header\<close> stays the
  reference copied from \<^verbatim>\<open>req\<close>.
\<close>

definition rewriteRequest :: "upstream \<Rightarrow> request \<Rightarrow> world \<Rightarrow> request \<times> world" where
  "rewriteRequest up req w =
     (let outReq = req;
          w1 = setURL (reqURL outReq) (\<lambda>u. u\<lparr>Scheme := Scheme (urls w (upUrl up))\<rparr>) w;
          w2 = setURL (reqURL outReq) (\<lambda>u. u\<lparr>Host := Host (urls w1 (upUrl up))\<rparr>) w1;
          w3 = setURL (reqURL outReq) (\<lambda>u. u\<lparr>Path := Path (urls w2 (upUrl up))\<rparr>) w2;
          w4 = setURL (reqURL outReq) (\<lambda>u. u\<lparr>RawQuery := RawQuery (urls w3 (reqURL req))\<rparr>) w3;
          outReq1 = outReq\<lparr>Proto := ''HTTP/1.1'', ProtoMajor := 1, ProtoMinor := 1, Close := False\<rparr>;
          (outReq2, w5) =
            (if upHeaders up \<noteq> None \<or> hasHeaders hopHeaders (headers w4 (reqHeader req))
             then let (a, wa) = makeHeader w4
                  in (outReq1\<lparr>reqHeader := a\<rparr>,
                      setHeader a (\<lambda>h. copyHeaders h (headers wa (reqHeader req))) wa)
             else (outReq1, w4));
          w6 = (case upHeaders up of
                  None \<Rightarrow> w5
                | Some uh \<Rightarrow> setHeader (reqHeader outReq2) (\<lambda>h. copyHeaders h uh) w5);
          w7 = setHeader (reqHeader outReq2) (removeHeaders hopHeaders) w6
      in (outReq2, w7))"

section \<open>The location: options and rewriteRequest (package httploc)\<close>

datatype timeProvider = RealTime | GivenTimeProvider nat

datatype predicate =
    MaxAttempts nat
  | OnErrors
  | OnGets
  | And "predicate list"
  | GivenPredicate nat

record Options =
  TimeoutsRead :: duration
  TimeoutsDial :: duration
  ShouldFailover :: "predicate option"
  Hostname :: string
  TrustForwardHeader :: bool
  TimeProvider :: "timeProvider option"

text \<open>
  \<^verbatim>\<open>os.Hostname()\<close> is the environment's: the pair it would return (the name and the
  error, \<open>None\<close> for nil) is a parameter.  The test of line 671 is \<^verbatim>\<open>err != nil\<close>.
\<close>

definition parseOptions :: "string \<times> error option \<Rightarrow> Options \<Rightarrow> error + Options" where
  "parseOptions osHostname o0 =
     (let o1 = (if TimeoutsRead o0 \<le> 0 then o0\<lparr>TimeoutsRead := DefaultHttpReadTimeout\<rparr> else o0);
          o2 = (if TimeoutsDial o1 \<le> 0 then o1\<lparr>TimeoutsDial := DefaultHttpDialTimeout\<rparr> else o1);
          o3 = (if Hostname o2 = []
                then (case osHostname of (h, err) \<Rightarrow>
                        if err \<noteq> None then o2\<lparr>Hostname := h\<rparr> else o2)
                else o2);
          o4 = (if TimeProvider o3 = None then o3\<lparr>TimeProvider := Some RealTime\<rparr> else o3);
          o5 = (if ShouldFailover o4 = None
                then o4\<lparr>ShouldFailover := Some (And [MaxAttempts 2, OnErrors, OnGets])\<rparr>
                else o4)
      in Inr o5)"

text \<open>An endpoint of the location: \<^verbatim>\<open>GetUrl()\<close> returns a pointer to its URL.\<close>

record endpoint =
  GetUrl :: ref
  GetId :: string

fun Join :: "string list \<Rightarrow> string \<Rightarrow> string" where
  "Join [] sep = []"
| "Join [a] sep = a"
| "Join (a # b # rest) sep = a @ sep @ Join (b # rest) sep"

text \<open>
  \<^verbatim>\<open>net.SplitHostPort\<close> is the standard library's and is a parameter: it gives the host
  and the port, or an error.  \<^verbatim>\<open>outReq.Header[headers.XForwardedFor]\<close> indexes the map
  itself, without canonicalising.
\<close>

definition loc_rewriteRequest ::
  "(string \<Rightarrow> error + string \<times> string) \<Rightarrow> Options \<Rightarrow> request \<Rightarrow> endpoint \<Rightarrow> world
     \<Rightarrow> request \<times> world" where
  "loc_rewriteRequest SplitHostPort opts req ep w =
     (let outReq = req;
          w1 = setURL (reqURL outReq) (\<lambda>u. u\<lparr>Scheme := Scheme (urls w (GetUrl ep))\<rparr>) w;
          w2 = setURL (reqURL outReq) (\<lambda>u. u\<lparr>Host := Host (urls w1 (GetUrl ep))\<rparr>) w1;
          w3 = setURL (reqURL outReq) (\<lambda>u. u\<lparr>RawQuery := RawQuery (urls w2 (reqURL req))\<rparr>) w2;
          outReq1 = outReq\<lparr>Proto := ''HTTP/1.1'', ProtoMajor := 1, ProtoMinor := 1, Close := False\<rparr>;
          (a, wa) = makeHeader w3;
          outReq2 = outReq1\<lparr>reqHeader := a\<rparr>;
          w4 = setHeader a (\<lambda>h. copyHeaders h (headers wa (reqHeader req))) wa;
          w5 = (case SplitHostPort (RemoteAddr req) of
                  Inl err \<Rightarrow> w4
                | Inr (host, port) \<Rightarrow>
                    let clientIP =
                          (if TrustForwardHeader opts
                           then (case map_of (headers w4 a) XForwardedFor of
                                   Some prior \<Rightarrow> Join prior '', '' @ '', '' @ host
                                 | None \<Rightarrow> host)
                           else host)
                    in setHeader a (\<lambda>h. Header_Set h XForwardedFor clientIP) w4);
          w6 = (if TLS req
                then setHeader a (\<lambda>h. Header_Set h XForwardedProto ''https'') w5
                else setHeader a (\<lambda>h. Header_Set h XForwardedProto ''http'') w5);
          w7 = (if reqHost req \<noteq> []
                then setHeader a (\<lambda>h. Header_Set h XForwardedHost (reqHost req)) w6
                else w6);
          w8 = setHeader a (\<lambda>h. Header_Set h XForwardedServer (Hostname opts)) w7;
          w9 = setHeader a (removeHeaders HopHeaders) w8
      in (outReq2, w9))"

section \<open>Forwarding with failover (proxy.go, lines 199 to 262)\<close>

text \<open>
  The transport is the environment.  Given what it has been handed so far and the outbound
  request as it stands (its URL, its headers and the unread part of its body), it says how
  many bytes of the body it reads and whether a response came back (\<open>None\<close>: an error).
  \<^verbatim>\<open>RoundTrip\<close> moves the body's position and appends the request to \<open>sent\<close>.  The
  transport has to read the body to send it: when the body is a broken stream,
  \<^verbatim>\<open>RoundTrip\<close> returns an error whatever the network would have answered.
\<close>

record response =
  StatusCode :: nat
  resHeader :: header
  resBody :: bytes

record responseWriter =
  rwHeader :: header
  rwStatus :: "nat option"
  rwBody :: bytes

type_synonym transport = "wire list \<Rightarrow> wire \<Rightarrow> nat \<times> response option"

definition RoundTrip :: "transport \<Rightarrow> request \<Rightarrow> world \<Rightarrow> response option \<times> world" where
  "RoundTrip t outReq w =
     (let b = bodies w (reqBody outReq);
          wr = \<lparr>wireURL = urls w (reqURL outReq), wireHeader = headers w (reqHeader outReq),
                wireBody = drop (rpos b) (rdata b)\<rparr>;
          (n, res) = t (sent w) wr
      in (if rbroken b then None else res,
          w\<lparr>bodies := (bodies w)(reqBody outReq := b\<lparr>rpos := min (length (rdata b)) (rpos b + n)\<rparr>),
            sent := sent w @ [wr]\<rparr>))"

definition WriteHeader :: "nat \<Rightarrow> responseWriter \<Rightarrow> responseWriter" where
  "WriteHeader code rw = (case rwStatus rw of None \<Rightarrow> rw\<lparr>rwStatus := Some code\<rparr> | Some _ \<Rightarrow> rw)"

definition proxyToUpstream ::
  "transport \<Rightarrow> responseWriter \<Rightarrow> request \<Rightarrow> upstream \<Rightarrow> world
     \<Rightarrow> error option \<times> responseWriter \<times> world" where
  "proxyToUpstream t rw req up w =
     (let (outReq, w1) = rewriteRequest up req w;
          (res, w2) = RoundTrip t outReq w1
      in case res of
           None \<Rightarrow> (Some (NewHttpError StatusBadGateway), rw, w2)
         | Some r \<Rightarrow>
             (None,
              (WriteHeader (StatusCode r) (rw\<lparr>rwHeader := copyHeaders (rwHeader rw) (resHeader r)\<rparr>))
                \<lparr>rwBody := rwBody rw @ resBody r\<rparr>,
              w2))"

text \<open>
  \<^verbatim>\<open>ioutil.ReadAll\<close> gives the unread bytes of a body, or an error when the stream is
  broken.  \<^verbatim>\<open>bytes.NewReader\<close> starts at position 0.  \<^verbatim>\<open>bytes.Reader.Seek\<close> fails on an
  unknown \<^verbatim>\<open>whence\<close> and on a negative position.
\<close>

definition ReadAll :: "reader \<Rightarrow> (error + bytes) \<times> reader" where
  "ReadAll r =
     (if rbroken r then (Inl (Errorf ''read error''), r)
      else (Inr (drop (rpos r) (rdata r)), r\<lparr>rpos := length (rdata r)\<rparr>))"

definition NewReader :: "bytes \<Rightarrow> reader" where
  "NewReader b = \<lparr>rdata = b, rpos = 0, rbroken = False\<rparr>"

definition Seek :: "reader \<Rightarrow> int \<Rightarrow> int \<Rightarrow> error + reader" where
  "Seek r offset whence =
     (if whence \<noteq> 0 \<and> whence \<noteq> 1 \<and> whence \<noteq> 2
      then Inl (Errorf ''bytes.Reader.Seek: invalid whence'')
      else let abs = (if whence = 0 then offset
                      else if whence = 1 then int (rpos r) + offset
                      else int (length (rdata r)) + offset)
           in if abs < 0 then Inl (Errorf ''bytes.Reader.Seek: negative position'')
              else Inr (r\<lparr>rpos := nat abs\<rparr>))"

text \<open>
  \<^verbatim>\<open>upstreams[0]\<close> on an empty slice panics.  The loop of lines 228 to 240 is
  \<open>proxyRequest_loop\<close>; \<open>rd\<close> is the address of the \<^verbatim>\<open>Buffer\<close> that line 226 stores in
  \<^verbatim>\<open>req.Body\<close>.  The result holds the two values the Go function returns, the response
  writer, the request (whose \<^verbatim>\<open>Body\<close> field was assigned) and the store.
\<close>

datatype panic = IndexOutOfRange

fun proxyRequest_loop ::
  "transport \<Rightarrow> responseWriter \<Rightarrow> request \<Rightarrow> ref \<Rightarrow> upstream list \<Rightarrow> world
     \<Rightarrow> (upstream option \<times> error option) \<times> responseWriter \<times> world" where
  "proxyRequest_loop t rw req rd [] w =
     ((None, Some (NewHttpError StatusBadGateway)), rw, w)"
| "proxyRequest_loop t rw req rd (up # rest) w =
     (case Seek (bodies w rd) 0 0 of
        Inl err \<Rightarrow> ((None, Some err), rw, w)
      | Inr b \<Rightarrow>
          (case proxyToUpstream t rw req up (w\<lparr>bodies := (bodies w)(rd := b)\<rparr>) of
             (err, rw1, w1) \<Rightarrow>
               if err \<noteq> None then proxyRequest_loop t rw1 req rd rest w1
               else ((Some up, None), rw1, w1)))"

definition proxyRequest ::
  "transport \<Rightarrow> bool \<Rightarrow> responseWriter \<Rightarrow> request \<Rightarrow> upstream list \<Rightarrow> world
     \<Rightarrow> panic + ((upstream option \<times> error option) \<times> responseWriter \<times> request \<times> world)" where
  "proxyRequest t failover rw req upstreams w =
     (if \<not> failover then
        (case upstreams of
           [] \<Rightarrow> Inl IndexOutOfRange
         | u0 # _ \<Rightarrow>
             (case proxyToUpstream t rw req u0 w of
                (err, rw1, w1) \<Rightarrow> Inr ((Some u0, err), rw1, req, w1)))
      else
        (case ReadAll (bodies w (reqBody req)) of
           (Inl err, r1) \<Rightarrow>
             Inr ((None, Some (NewHttpError StatusBadRequest)), rw, req,
                  w\<lparr>bodies := (bodies w)(reqBody req := r1)\<rparr>)
         | (Inr buffer, r1) \<Rightarrow>
             let w1 = w\<lparr>bodies := (bodies w)(reqBody req := r1)\<rparr>;
                 rd = nextRef w1;
                 w2 = w1\<lparr>bodies := (bodies w1)(rd := NewReader buffer), nextRef := Suc rd\<rparr>;
                 req1 = req\<lparr>reqBody := rd\<rparr>
             in (case proxyRequest_loop t rw req1 rd upstreams w2 of
                   (res, rw1, w3) \<Rightarrow> Inr (res, rw1, req1, w3))))"

text \<open>
  For stating what was tried: the URL an outbound request to an upstream carries, and the
  outcomes the transport gave for a run of requests handed to it after \<open>hist\<close>.
\<close>

definition outURL :: "world \<Rightarrow> request \<Rightarrow> upstream \<Rightarrow> url" where
  "outURL w req up =
     (urls w (reqURL req))\<lparr>Scheme := Scheme (urls w (upUrl up)), Host := Host (urls w (upUrl up)),
        Path := Path (urls w (upUrl up))\<rparr>"

fun outcomes :: "transport \<Rightarrow> wire list \<Rightarrow> wire list \<Rightarrow> bool list" where
  "outcomes t hist [] = []"
| "outcomes t hist (x # xs) = (snd (t hist x) \<noteq> None) # outcomes t (hist @ [x]) xs"


section \<open>Choosing the upstreams (proxy.go, lines 180 to 197)\<close>

text \<open>
  The throttler and the load balancer are collaborators behind interfaces; they are
  parameters.  \<^verbatim>\<open>throttle\<close> returns the stats of the upstreams that may take the request,
  the seconds to wait, and an error (\<open>None\<close> for nil).
\<close>

record instructions =
  Failover :: bool
  Tokens :: "string list"
  Upstreams :: "upstream list"
  insHeaders :: "header option"

record 's loadBalancer =
  sortedUrls :: "string list \<Rightarrow> error + string list"
  sortedUpstreams :: "upstream list \<Rightarrow> error + upstream list"
  sortedUpstreamsByStats :: "'s list \<Rightarrow> error + upstream list"

definition getUpstreams ::
  "(instructions \<Rightarrow> 's list \<times> int \<times> error option) \<Rightarrow> 's loadBalancer \<Rightarrow> instructions
     \<Rightarrow> error + upstream list" where
  "getUpstreams throttle lb ins =
     (case throttle ins of
        (upstreamStats, retrySeconds, err) \<Rightarrow>
          if err \<noteq> None then sortedUpstreams lb (Upstreams ins)
          else if length upstreamStats = 0 then Inl (TooManyRequestsError retrySeconds)
          else sortedUpstreamsByStats lb upstreamStats)"

section \<open>Replying with an error, and ServeHTTP (proxy.go, lines 124 to 161 and 299 to 312)\<close>

text \<open>
  \<open>replyError\<close> takes the error as an \<^verbatim>\<open>*HttpError\<close> or replaces it by the one for 500,
  reads the rest of the request body and throws it away, sets \<^verbatim>\<open>Content-Type\<close> in the
  response headers, writes the status code and writes the error's body.  It sets no other
  header.  How the body of an \<^verbatim>\<open>HttpError\<close> is encoded as JSON is not among the source
  files: the encoding is a parameter \<open>json\<close>.
\<close>

definition replyError ::
  "(errorBody \<Rightarrow> bytes) \<Rightarrow> error \<Rightarrow> responseWriter \<Rightarrow> request \<Rightarrow> world
     \<Rightarrow> responseWriter \<times> world" where
  "replyError json err rw req w =
     (let httpErr = (case err of
                       HttpError code body \<Rightarrow> err
                     | Errorf msg \<Rightarrow> NewHttpError StatusInternalServerError);
          w1 = w\<lparr>bodies := (bodies w)(reqBody req := snd (ReadAll (bodies w (reqBody req))))\<rparr>;
          rw1 = rw\<lparr>rwHeader := Header_Set (rwHeader rw) ''Content-Type'' ''application/json''\<rparr>;
          rw2 = WriteHeader (errStatusCode httpErr) rw1;
          rw3 = rw2\<lparr>rwBody := rwBody rw2 @ json (errBody httpErr)\<rparr>
      in (rw3, w1))"

text \<open>
  The proxy holds its control servers (URLs, kept as strings), the throttler (its
  \<^verbatim>\<open>throttle\<close> method), the load balancer and the transport.  \<^verbatim>\<open>getInstructions\<close> is
  not among the source files and is a parameter: from the ordered control servers and the
  request it gives the instructions or an error, and it may read the request.
  \<^verbatim>\<open>updateStats\<close> changes the throttler's backend only, which is no part of the store,
  and its error is logged and dropped; it leaves no trace in the model.
\<close>

record 's ReverseProxy =
  pControlServers :: "string list"
  pThrottle :: "instructions \<Rightarrow> 's list \<times> int \<times> error option"
  pLoadBalancer :: "'s loadBalancer"
  pTransport :: transport

definition ServeHTTP ::
  "(errorBody \<Rightarrow> bytes) \<Rightarrow> (string list \<Rightarrow> request \<Rightarrow> world \<Rightarrow> (error + instructions) \<times> world)
     \<Rightarrow> 's ReverseProxy \<Rightarrow> responseWriter \<Rightarrow> request \<Rightarrow> world
     \<Rightarrow> panic + responseWriter \<times> world" where
  "ServeHTTP json getInstructions p rw req w =
     (case sortedUrls (pLoadBalancer p) (pControlServers p) of
        Inl err \<Rightarrow> Inr (replyError json err rw req w)
      | Inr controlServers \<Rightarrow>
          (case getInstructions controlServers req w of
             (Inl err, w1) \<Rightarrow> Inr (replyError json err rw req w1)
           | (Inr ins, w1) \<Rightarrow>
               (case getUpstreams (pThrottle p) (pLoadBalancer p) ins of
                  Inl err \<Rightarrow> Inr (replyError json err rw req w1)
                | Inr upstreams \<Rightarrow>
                    (case proxyRequest (pTransport p) (Failover ins) rw req upstreams w1 of
                       Inl pnc \<Rightarrow> Inl pnc
                     | Inr ((upstream, err), rw1, req1, w2) \<Rightarrow>
                         (case err of
                            Some e \<Rightarrow> Inr (replyError json e rw1 req1 w2)
                          | None \<Rightarrow> Inr (rw1, w2))))))"

section \<open>The cursor table (package roundrobin)\<close>

text \<open>
  A \<^verbatim>\<open>loadbalance.Endpoint\<close> is used through \<^verbatim>\<open>Id()\<close> and \<^verbatim>\<open>IsActive()\<close> only.
  \<^verbatim>\<open>fnv.New32()\<close> is the 32-bit FNV-1 hash: for each byte, multiply by the prime, then
  xor the byte in.  \<open>computeHash\<close> writes the bytes of the ids one after the other.
\<close>

record lbEndpoint =
  Id :: string
  IsActive :: bool

definition fnvOffset32 :: "32 word" where "fnvOffset32 = 2166136261"

definition fnvPrime32 :: "32 word" where "fnvPrime32 = 16777619"

definition fnvWrite :: "32 word \<Rightarrow> string \<Rightarrow> 32 word" where
  "fnvWrite h s = fold (\<lambda>b acc. (acc * fnvPrime32) XOR of_char b) s h"

definition computeHash :: "lbEndpoint list \<Rightarrow> 32 word" where
  "computeHash eps = fold (\<lambda>e acc. fnvWrite acc (Id e)) eps fnvOffset32"

text \<open>
  Cursors and queue items are objects reached through pointers; \<open>cursorAt\<close> and
  \<open>itemAt\<close> give the object at an address, and \<open>nextCursor\<close>, \<open>nextItem\<close> are the next
  unused addresses.  \<open>cursors\<close> is the \<^verbatim>\<open>map[uint32][]*cursor\<close> as an association list,
  \<open>expiryTimes\<close> holds the addresses of the items in the priority queue.  A cursor's
  \<^verbatim>\<open>item\<close> pointer is nil (\<open>None\<close>) until \<open>upsertCursor\<close> sets it.
\<close>

record cursor =
  curIndex :: int
  curHash :: "32 word"
  curItem :: "ref option"
  curEndpointIds :: "string list"

record pqItem =
  itemCursor :: ref
  itemPriority :: int

record cursorMap =
  cursors :: "(32 word \<times> ref list) list"
  expiryTimes :: "ref list"
  cursorAt :: "ref \<Rightarrow> cursor"
  itemAt :: "ref \<Rightarrow> pqItem"
  nextCursor :: ref
  nextItem :: ref

definition newCursorMap :: cursorMap where
  "newCursorMap =
     \<lparr>cursors = [], expiryTimes = [],
      cursorAt = (\<lambda>_. \<lparr>curIndex = 0, curHash = 0, curItem = None, curEndpointIds = []\<rparr>),
      itemAt = (\<lambda>_. \<lparr>itemCursor = 0, itemPriority = 0\<rparr>),
      nextCursor = 0, nextItem = 0\<rparr>"

text \<open>
  Modelled from the spec: the type \<^verbatim>\<open>priorityQueue\<close> and its methods are not among the
  source files.  The spec calls it a min-heap keyed by expiry time.  The queue is kept as
  the list of its items' addresses; \<open>Peek\<close> gives an item of least priority (the first
  such in the list), \<^verbatim>\<open>heap.Pop\<close> takes that item out, \<^verbatim>\<open>heap.Push\<close> puts an item in,
  and \<open>Update\<close> sets the priority of an item.
\<close>

fun peekFrom :: "(ref \<Rightarrow> pqItem) \<Rightarrow> ref \<Rightarrow> ref list \<Rightarrow> ref" where
  "peekFrom at best [] = best"
| "peekFrom at best (i # rest) =
     peekFrom at (if itemPriority (at i) < itemPriority (at best) then i else best) rest"

definition Peek :: "cursorMap \<Rightarrow> ref option" where
  "Peek cm = (case expiryTimes cm of [] \<Rightarrow> None | i # rest \<Rightarrow> Some (peekFrom (itemAt cm) i rest))"

definition Pop :: "cursorMap \<Rightarrow> (ref \<times> cursorMap) option" where
  "Pop cm =
     (case Peek cm of
        None \<Rightarrow> None
      | Some i \<Rightarrow> Some (i, cm\<lparr>expiryTimes := remove1 i (expiryTimes cm)\<rparr>))"

definition Push :: "ref \<Rightarrow> cursorMap \<Rightarrow> cursorMap" where
  "Push i cm = cm\<lparr>expiryTimes := expiryTimes cm @ [i]\<rparr>"

definition Update :: "ref \<Rightarrow> int \<Rightarrow> cursorMap \<Rightarrow> cursorMap" where
  "Update i p cm = cm\<lparr>itemAt := (itemAt cm)(i := (itemAt cm i)\<lparr>itemPriority := p\<rparr>)\<rparr>"

text \<open>The cursor functions, in the order of the source (lines 273 to 429).\<close>

definition sameEndpoints :: "cursor \<Rightarrow> lbEndpoint list \<Rightarrow> bool" where
  "sameEndpoints cur eps =
     (if length (curEndpointIds cur) \<noteq> length eps then False
      else list_all2 (\<lambda>i e. i = Id e) (curEndpointIds cur) eps)"

definition newCursor :: "lbEndpoint list \<Rightarrow> cursor" where
  "newCursor eps =
     \<lparr>curIndex = 0, curHash = computeHash eps, curItem = None, curEndpointIds = map Id eps\<rparr>"

definition getCursor :: "lbEndpoint list \<Rightarrow> cursorMap \<Rightarrow> ref option" where
  "getCursor eps cm =
     (let cursorHash = computeHash eps
      in case map_of (cursors cm) cursorHash of
           None \<Rightarrow> None
         | Some cs \<Rightarrow>
             if length cs = 1 then Some (cs ! 0)
             else find (\<lambda>a. sameEndpoints (cursorAt cm a) eps) cs)"

definition addCursor :: "lbEndpoint list \<Rightarrow> cursorMap \<Rightarrow> ref \<times> cursorMap" where
  "addCursor eps cm =
     (let a = nextCursor cm;
          cm1 = cm\<lparr>cursorAt := (cursorAt cm)(a := newCursor eps), nextCursor := Suc a\<rparr>;
          h = curHash (cursorAt cm1 a)
      in case map_of (cursors cm1) h of
           None \<Rightarrow> (a, cm1\<lparr>cursors := AList.update h [a] (cursors cm1)\<rparr>)
         | Some cs \<Rightarrow> (a, cm1\<lparr>cursors := AList.update h (cs @ [a]) (cursors cm1)\<rparr>))"

datatype nilPanic = NilDereference

definition upsertCursor ::
  "lbEndpoint list \<Rightarrow> int \<Rightarrow> cursorMap \<Rightarrow> nilPanic + ref \<times> cursorMap" where
  "upsertCursor eps expiryTime cm =
     (case getCursor eps cm of
        Some a \<Rightarrow>
          (case curItem (cursorAt cm a) of
             None \<Rightarrow> Inl NilDereference
           | Some i \<Rightarrow> Inr (a, Update i expiryTime cm))
      | None \<Rightarrow>
          let (a, cm1) = addCursor eps cm;
              i = nextItem cm1;
              cm2 = cm1\<lparr>itemAt := (itemAt cm1)(i := \<lparr>itemCursor = a, itemPriority = expiryTime\<rparr>),
                        nextItem := Suc i\<rparr>;
              cm3 = cm2\<lparr>cursorAt := (cursorAt cm2)(a := (cursorAt cm2 a)\<lparr>curItem := Some i\<rparr>)\<rparr>
          in Inr (a, Push i cm3))"

fun indexFrom :: "int \<Rightarrow> ref \<Rightarrow> ref list \<Rightarrow> int" where
  "indexFrom i a [] = -1"
| "indexFrom i a (c2 # rest) = (if c2 = a then i else indexFrom (i + 1) a rest)"

definition cursorIndex :: "ref \<Rightarrow> cursorMap \<Rightarrow> int" where
  "cursorIndex a cm =
     (case map_of (cursors cm) (curHash (cursorAt cm a)) of
        None \<Rightarrow> -1
      | Some cs \<Rightarrow> indexFrom 0 a cs)"

definition deleteCursor :: "ref \<Rightarrow> cursorMap \<Rightarrow> error option \<times> cursorMap" where
  "deleteCursor a cm =
     (let h = curHash (cursorAt cm a)
      in case map_of (cursors cm) h of
           None \<Rightarrow> (Some (Errorf ''Cursor not found''), cm)
         | Some cs \<Rightarrow>
             let index = cursorIndex a cm
             in if index = -1 then (Some (Errorf ''Cursor not found''), cm)
                else if index = 0 \<and> length cs = 1
                then (None, cm\<lparr>cursors := AList.delete h (cursors cm)\<rparr>)
                else (None, cm\<lparr>cursors :=
                        AList.update h (take (nat index) cs @ drop (nat index + 1) cs) (cursors cm)\<rparr>))"

lemma peekFrom_in: "peekFrom at best rest \<in> set (best # rest)"
  by (induction rest arbitrary: best) auto

lemma expiryTimes_deleteCursor: "expiryTimes (snd (deleteCursor a cm)) = expiryTimes cm"
  by (simp add: deleteCursor_def Let_def split: option.splits)

text \<open>
  The loop of \<open>deleteExpiredCursors\<close> (lines 380 to 394): stop when the queue is empty
  or the priority of the item \<open>Peek\<close> gives is later than \<open>now\<close>; otherwise pop and
  delete the popped item's cursor, ignoring the error \<open>deleteCursor\<close> may return.  The
  two \<open>None\<close> branches stand for a \<open>Peek\<close> or \<^verbatim>\<open>heap.Pop\<close> on an empty queue, which
  the test of the length excludes.
\<close>

function deleteExpiredCursors :: "int \<Rightarrow> cursorMap \<Rightarrow> cursorMap" where
  "deleteExpiredCursors now cm =
     (if length (expiryTimes cm) = 0 then cm
      else
        case Peek cm of
          None \<Rightarrow> cm
        | Some item \<Rightarrow>
            if itemPriority (itemAt cm item) > now then cm
            else
              (case Pop cm of
                 None \<Rightarrow> cm
               | Some (pitem, cm1) \<Rightarrow>
                   deleteExpiredCursors now
                     (snd (deleteCursor (itemCursor (itemAt cm1 pitem)) cm1))))"
  by pat_completeness auto
termination
proof (relation "measure (\<lambda>(now, cm). length (expiryTimes cm))")
  show "wf (measure (\<lambda>(now, cm). length (expiryTimes cm)))" by simp
next
  fix now :: int and cm :: cursorMap and item x2 pitem cm1
  assume "Pop cm = Some x2" and "(pitem, cm1) = x2"
  then have p: "Pop cm = Some (pitem, cm1)" by simp
  then obtain j rest where q: "expiryTimes cm = j # rest"
    and i: "pitem = peekFrom (itemAt cm) j rest"
    and cm1: "cm1 = cm\<lparr>expiryTimes := remove1 pitem (expiryTimes cm)\<rparr>"
    by (auto simp: Pop_def Peek_def split: list.splits)
  have "pitem \<in> set (expiryTimes cm)" using q i peekFrom_in by metis
  then have "length (remove1 pitem (expiryTimes cm)) < length (expiryTimes cm)"
    using length_pos_if_in_set [of pitem "expiryTimes cm"] by (simp add: length_remove1)
  then show "((now, snd (deleteCursor (itemCursor (itemAt cm1 pitem)) cm1)), (now, cm))
      \<in> measure (\<lambda>(now, cm). length (expiryTimes cm))"
    using cm1 by (simp add: expiryTimes_deleteCursor)
qed

declare deleteExpiredCursors.simps [simp del]

text \<open>
  For stating the invariants: the cursors held by the map, the cursors the queue items
  point to, and the well-formed tables.  A table is well formed when the map has each key
  once, every cursor is stored under its own hash, and each cursor of the map is the
  cursor of exactly one queue item (and every queue item's cursor is in the map).
  \<open>singleBuckets\<close> says that no two cursors share a hash.
\<close>

definition allCursors :: "cursorMap \<Rightarrow> ref list" where
  "allCursors cm = concat (map snd (cursors cm))"

definition queueCursors :: "cursorMap \<Rightarrow> ref list" where
  "queueCursors cm = map (\<lambda>i. itemCursor (itemAt cm i)) (expiryTimes cm)"

definition wellFormed :: "cursorMap \<Rightarrow> bool" where
  "wellFormed cm =
     (distinct (map fst (cursors cm))
      \<and> list_all (\<lambda>(h, cs). list_all (\<lambda>a. curHash (cursorAt cm a) = h) cs) (cursors cm)
      \<and> distinct (queueCursors cm)
      \<and> mset (queueCursors cm) = mset (allCursors cm))"

definition singleBuckets :: "cursorMap \<Rightarrow> bool" where
  "singleBuckets cm = list_all (\<lambda>(h, cs). length cs = 1) (cursors cm)"

section \<open>Weight adjustment (package roundrobin, FSMHandler)\<close>

text \<open>
  A \<^verbatim>\<open>WeightedEndpoint\<close> is reached through a pointer and changes between calls (the
  load balancer sets its effective weight, its meter fills): the endpoints of the moment
  are a store, handed to each call.  Go's \<^verbatim>\<open>int\<close> is taken as 64 bits wide;
  \<open>increase\<close> wraps around, \<^verbatim>\<open>/\<close> truncates towards zero (\<open>sdiv\<close>).

  Modelled from the spec: the types \<^verbatim>\<open>WeightedEndpoint\<close>, its meter and
  \<^verbatim>\<open>EndpointWeight\<close> are not among the source files; the spec gives an endpoint an id, an
  original and an effective weight and a meter with \<^verbatim>\<open>IsReady()\<close> and
  \<^verbatim>\<open>GetWindowSize()\<close>, and the source builds an \<^verbatim>\<open>EndpointWeight\<close> from an endpoint
  and a weight.
\<close>

record meter =
  IsReady :: bool
  GetWindowSize :: duration

record WeightedEndpoint =
  weId :: string
  GetOriginalWeight :: int
  GetEffectiveWeight :: int
  weMeter :: meter

record EndpointWeight =
  Endpoint :: ref
  Weight :: int

type_synonym endpointStore = "ref \<Rightarrow> WeightedEndpoint"

text \<open>
  The time provider is a field of the handler: \<open>clock\<close> lists the times it will give,
  \<open>ticks\<close> counts the calls of \<^verbatim>\<open>UtcNow()\<close> so far.  Times are nanoseconds.
\<close>

record FSMHandler =
  clock :: "nat \<Rightarrow> int"
  ticks :: nat
  backoffDuration :: duration
  timer :: int
  endpoints :: "ref list"
  originalWeights :: "EndpointWeight list"
  lastWeights :: "EndpointWeight list"

definition FSMMaxWeight :: int where "FSMMaxWeight = 4096"

definition FSMGrowFactor :: int where "FSMGrowFactor = 16"

definition NewFSMHandlerWithOptions :: "(nat \<Rightarrow> int) \<Rightarrow> FSMHandler" where
  "NewFSMHandlerWithOptions timeProvider =
     \<lparr>clock = timeProvider, ticks = 0, backoffDuration = 0, timer = 0, endpoints = [],
      originalWeights = [], lastWeights = []\<rparr>"

definition UtcNow :: "FSMHandler \<Rightarrow> int \<times> FSMHandler" where
  "UtcNow fsm = (clock fsm (ticks fsm), fsm\<lparr>ticks := Suc (ticks fsm)\<rparr>)"

definition int64 :: "int \<Rightarrow> int" where
  "int64 x = signed_take_bit 63 x"

definition increase :: "int \<Rightarrow> int" where
  "increase weight = int64 (weight * FSMGrowFactor)"

definition decrease :: "int \<Rightarrow> int \<Rightarrow> int" where
  "decrease target current =
     (let adjusted = current sdiv FSMGrowFactor
      in if adjusted < target then target else adjusted)"

definition makeOriginalWeights :: "endpointStore \<Rightarrow> ref list \<Rightarrow> EndpointWeight list" where
  "makeOriginalWeights st es =
     map (\<lambda>e. \<lparr>Endpoint = e, Weight = GetOriginalWeight (st e)\<rparr>) es"

definition Init :: "endpointStore \<Rightarrow> ref list \<Rightarrow> FSMHandler \<Rightarrow> FSMHandler" where
  "Init st es fsm =
     (let f1 = fsm\<lparr>originalWeights := makeOriginalWeights st es\<rparr>;
          f2 = f1\<lparr>lastWeights := originalWeights f1\<rparr>;
          f3 = f2\<lparr>endpoints := es\<rparr>;
          f4 = (if length es > 0
                then f3\<lparr>backoffDuration := GetWindowSize (weMeter (st (es ! 0))) sdiv 2\<rparr>
                else f3);
          (now, f5) = UtcNow f4
      in f5\<lparr>timer := now + (-1) * Second\<rparr>)"

text \<open>
  The helper \<^verbatim>\<open>gcd\<close> is not among the source files and is a parameter \<open>g\<close> of
  everything that divides by it.
\<close>

definition weightsGcd :: "(int \<Rightarrow> int \<Rightarrow> int) \<Rightarrow> EndpointWeight list \<Rightarrow> int" where
  "weightsGcd g weights =
     fold (\<lambda>w divisor. if divisor = -1 then Weight w else g divisor (Weight w)) weights (-1)"

definition normalizeWeights ::
  "(int \<Rightarrow> int \<Rightarrow> int) \<Rightarrow> EndpointWeight list \<Rightarrow> EndpointWeight list" where
  "normalizeWeights g weights =
     (let d = weightsGcd g weights
      in if d \<le> 1 then weights
         else map (\<lambda>w. w\<lparr>Weight := Weight w sdiv d\<rparr>) weights)"

definition setTimer :: "FSMHandler \<Rightarrow> FSMHandler" where
  "setTimer fsm = (let (now, f1) = UtcNow fsm in f1\<lparr>timer := now + backoffDuration f1\<rparr>)"

definition timerExpired :: "FSMHandler \<Rightarrow> bool \<times> FSMHandler" where
  "timerExpired fsm = (let (now, f1) = UtcNow fsm in (timer f1 < now, f1))"

definition metricsReady :: "endpointStore \<Rightarrow> ref list \<Rightarrow> bool" where
  "metricsReady st es = list_all (\<lambda>e. IsReady (weMeter (st e))) es"

definition convergeWeights ::
  "(int \<Rightarrow> int \<Rightarrow> int) \<Rightarrow> endpointStore \<Rightarrow> FSMHandler \<Rightarrow> EndpointWeight list \<times> bool" where
  "convergeWeights g st fsm =
     (normalizeWeights g
        (map (\<lambda>e. \<lparr>Endpoint = e,
                    Weight = decrease (GetOriginalWeight (st e)) (GetEffectiveWeight (st e))\<rparr>)
           (endpoints fsm)),
      list_ex (\<lambda>e. GetEffectiveWeight (st e) \<noteq> GetOriginalWeight (st e)) (endpoints fsm))"

definition adjustWeights ::
  "(int \<Rightarrow> int \<Rightarrow> int) \<Rightarrow> endpointStore \<Rightarrow> FSMHandler \<Rightarrow> string list \<Rightarrow> string list
     \<Rightarrow> EndpointWeight list" where
  "adjustWeights g st fsm good bad =
     normalizeWeights g
       (map (\<lambda>e. if weId (st e) \<in> set good \<and> increase (GetEffectiveWeight (st e)) \<le> FSMMaxWeight
                 then \<lparr>Endpoint = e, Weight = increase (GetEffectiveWeight (st e))\<rparr>
                 else \<lparr>Endpoint = e, Weight = GetEffectiveWeight (st e)\<rparr>)
          (endpoints fsm))"

text \<open>
  \<open>splitEndpoints\<close> sorts the endpoints by their fail rates, which are \<^verbatim>\<open>float64\<close>, and
  compares each with the median plus one and a half median absolute deviations.  Floating
  point is outside this embedding: the classification is a parameter \<open>split\<close>, which
  gives the keys of the two maps \<^verbatim>\<open>good\<close> and \<^verbatim>\<open>bad\<close>.
\<close>

definition AdjustWeights ::
  "(int \<Rightarrow> int \<Rightarrow> int) \<Rightarrow> (endpointStore \<Rightarrow> ref list \<Rightarrow> string list \<times> string list)
     \<Rightarrow> endpointStore \<Rightarrow> FSMHandler \<Rightarrow> (EndpointWeight list \<times> error option) \<times> FSMHandler" where
  "AdjustWeights g split st fsm =
     (if length (endpoints fsm) < 2 then ((originalWeights fsm, None), fsm)
      else if \<not> metricsReady st (endpoints fsm) then ((originalWeights fsm, None), fsm)
      else
        let (expired, f1) = timerExpired fsm
        in if \<not> expired then ((lastWeights f1, None), f1)
           else
             let (good, bad) = split st (endpoints f1)
             in if length bad = 0 \<or> length good = 0
                then
                  let (weights, changed) = convergeWeights g st f1
                  in if changed
                     then let f2 = setTimer (f1\<lparr>lastWeights := weights\<rparr>)
                          in ((lastWeights f2, None), f2)
                     else ((lastWeights f1, None), f1)
                else
                  let f2 = setTimer (f1\<lparr>lastWeights := adjustWeights g st f1 good bad\<rparr>)
                  in ((lastWeights f2, None), f2))"

text \<open>
  A sequence of calls on one handler: each call comes with the endpoints as they are at
  that moment.  \<open>run\<close> gives the weight lists that the calls of \<open>AdjustWeights\<close> return,
  in order.
\<close>

datatype event = InitCall endpointStore "ref list" | AdjustCall endpointStore

fun run ::
  "(int \<Rightarrow> int \<Rightarrow> int) \<Rightarrow> (endpointStore \<Rightarrow> ref list \<Rightarrow> string list \<times> string list)
     \<Rightarrow> FSMHandler \<Rightarrow> event list \<Rightarrow> EndpointWeight list list" where
  "run g split fsm [] = []"
| "run g split fsm (InitCall st es # evs) = run g split (Init st es fsm) evs"
| "run g split fsm (AdjustCall st # evs) =
     (case AdjustWeights g split st fsm of
        ((weights, err), fsm') \<Rightarrow> weights # run g split fsm' evs)"

text \<open>
  For stating the bound: a weight list within \<open>FSMMaxWeight\<close>, endpoints whose weights
  are within it, and a sequence of calls in which the endpoints handed to \<open>Init\<close> have
  original weights within it and the handler's endpoints have both weights within it
  whenever \<open>AdjustWeights\<close> runs.
\<close>

definition bounded :: "EndpointWeight list \<Rightarrow> bool" where
  "bounded ws = list_all (\<lambda>w. Weight w \<le> FSMMaxWeight) ws"

definition endpointsBounded :: "endpointStore \<Rightarrow> ref list \<Rightarrow> bool" where
  "endpointsBounded st es =
     list_all (\<lambda>e. GetOriginalWeight (st e) \<le> FSMMaxWeight \<and> GetEffectiveWeight (st e) \<le> FSMMaxWeight) es"

fun callsBounded :: "ref list \<Rightarrow> event list \<Rightarrow> bool" where
  "callsBounded es [] = True"
| "callsBounded es (InitCall st es' # evs) =
     (list_all (\<lambda>e. GetOriginalWeight (st e) \<le> FSMMaxWeight) es' \<and> callsBounded es' evs)"
| "callsBounded es (AdjustCall st # evs) = (endpointsBounded st es \<and> callsBounded es evs)"

section \<open>Example values\<close>

text \<open>A request, an upstream and a store holding their objects, used where a theorem is
  applied to a concrete input.\<close>

definition exampleURL :: url where
  "exampleURL = \<lparr>Scheme = ''http'', Host = ''proxy.local'', Path = ''/in'', RawQuery = ''a=1''\<rparr>"

definition exampleUpstreamURL :: url where
  "exampleUpstreamURL = \<lparr>Scheme = ''https'', Host = ''backend:8080'', Path = ''/api'', RawQuery = []\<rparr>"

definition exampleReader :: reader where
  "exampleReader = \<lparr>rdata = [1, 2, 3], rpos = 0, rbroken = False\<rparr>"

definition exampleWorld :: world where
  "exampleWorld =
     \<lparr>urls = (\<lambda>_. exampleURL)(3 := exampleUpstreamURL),
      headers = (\<lambda>_. [])(1 := [(''Accept'', [''*/*''])]),
      bodies = (\<lambda>_. exampleReader),
      nextRef = 4,
      sent = []\<rparr>"

definition exampleRequest :: request where
  "exampleRequest =
     \<lparr>reqURL = 0, Proto = ''HTTP/1.0'', ProtoMajor = 1, ProtoMinor = 0, Close = True,
      reqHeader = 1, reqBody = 2, reqHost = ''proxy.local'', RemoteAddr = ''10.0.0.1:4242'',
      TLS = False\<rparr>"

definition exampleUpstream :: upstream where
  "exampleUpstream = \<lparr>upUrl = 3, upHeaders = None\<rparr>"

definition exampleOptions :: Options where
  "exampleOptions = \<lparr>TimeoutsRead = 0, TimeoutsDial = 0, ShouldFailover = None, Hostname = [],
      TrustForwardHeader = False, TimeProvider = None\<rparr>"

definition exampleEndpoint :: endpoint where
  "exampleEndpoint = \<lparr>GetUrl = 3, GetId = ''backend''\<rparr>"

definition exampleSplitHostPort :: "string \<Rightarrow> error + string \<times> string" where
  "exampleSplitHostPort addr = Inr (takeWhile (\<lambda>c. c \<noteq> CHR '':'') addr, tl (dropWhile (\<lambda>c. c \<noteq> CHR '':'') addr))"


definition brokenWorld :: world where
  "brokenWorld = exampleWorld\<lparr>bodies := (\<lambda>_. \<lparr>rdata = [], rpos = 0, rbroken = True\<rparr>)\<rparr>"

definition okTransport :: transport where
  "okTransport hist wr =
     (length (wireBody wr), Some \<lparr>StatusCode = 200, resHeader = [], resBody = []\<rparr>)"

definition flakyTransport :: transport where
  "flakyTransport hist wr =
     (length (wireBody wr),
      if hist = [] then None else Some \<lparr>StatusCode = 200, resHeader = [], resBody = []\<rparr>)"

definition secondUpstream :: upstream where
  "secondUpstream = \<lparr>upUrl = 4, upHeaders = None\<rparr>"

definition failoverWorld :: world where
  "failoverWorld =
     exampleWorld\<lparr>urls := (urls exampleWorld)
                      (4 := \<lparr>Scheme = ''https'', Host = ''standby:8080'', Path = ''/api'', RawQuery = []\<rparr>),
                   nextRef := 5\<rparr>"

definition exampleJson :: "errorBody \<Rightarrow> bytes" where
  "exampleJson body = (case body of StatusText \<Rightarrow> [] | RetrySeconds n \<Rightarrow> [word_of_int n])"

definition exampleWriter :: responseWriter where
  "exampleWriter = \<lparr>rwHeader = [], rwStatus = None, rwBody = []\<rparr>"

definition downThrottle :: "instructions \<Rightarrow> nat list \<times> int \<times> error option" where
  "downThrottle ins = ([], 0, Some (Errorf ''backend unavailable''))"

definition fullThrottle :: "instructions \<Rightarrow> nat list \<times> int \<times> error option" where
  "fullThrottle ins = ([], 30, None)"

definition openThrottle :: "instructions \<Rightarrow> nat list \<times> int \<times> error option" where
  "openThrottle ins = ([5, 3], 0, None)"

definition exampleBalancer :: "nat loadBalancer" where
  "exampleBalancer =
     \<lparr>sortedUrls = (\<lambda>urls. Inr urls),
      sortedUpstreams = (\<lambda>us. Inr (rev us)),
      sortedUpstreamsByStats = (\<lambda>stats. Inr (map (\<lambda>n. \<lparr>upUrl = n, upHeaders = None\<rparr>) stats))\<rparr>"

definition exampleInstructions :: instructions where
  "exampleInstructions =
     \<lparr>Failover = True, Tokens = [''account-1''],
      Upstreams = [\<lparr>upUrl = 3, upHeaders = None\<rparr>, \<lparr>upUrl = 5, upHeaders = None\<rparr>],
      insHeaders = None\<rparr>"

definition exampleGetInstructions ::
  "string list \<Rightarrow> request \<Rightarrow> world \<Rightarrow> (error + instructions) \<times> world" where
  "exampleGetInstructions servers req w = (Inr exampleInstructions, w)"

definition fullProxy :: "nat ReverseProxy" where
  "fullProxy =
     \<lparr>pControlServers = [''http://localhost:5000''], pThrottle = fullThrottle,
      pLoadBalancer = exampleBalancer, pTransport = okTransport\<rparr>"

definition hopWorld :: world where
  "hopWorld = exampleWorld\<lparr>headers := (\<lambda>_. [])(1 := [(''Connection'', [''close'']), (''Accept'', [''*/*''])])\<rparr>"

definition readyMeter :: meter where
  "readyMeter = \<lparr>IsReady = True, GetWindowSize = 10 * Second\<rparr>"

definition heavyStore :: endpointStore where
  "heavyStore =
     (\<lambda>_. \<lparr>weId = ''b'', GetOriginalWeight = 1, GetEffectiveWeight = 1, weMeter = readyMeter\<rparr>)
       (0 := \<lparr>weId = ''a'', GetOriginalWeight = 5001, GetEffectiveWeight = 5001, weMeter = readyMeter\<rparr>)"

definition lightStore :: endpointStore where
  "lightStore =
     (\<lambda>_. \<lparr>weId = ''b'', GetOriginalWeight = 1, GetEffectiveWeight = 1, weMeter = readyMeter\<rparr>)
       (0 := \<lparr>weId = ''a'', GetOriginalWeight = 3, GetEffectiveWeight = 3, weMeter = readyMeter\<rparr>)"

definition exampleSplit :: "endpointStore \<Rightarrow> ref list \<Rightarrow> string list \<times> string list" where
  "exampleSplit st es = ([''b''], [''a''])"

definition frozenClock :: "nat \<Rightarrow> int" where
  "frozenClock n = 1330837567000000000"

definition exampleTable :: cursorMap where
  "exampleTable =
     \<lparr>cursors = [(84696446, [0]), (84696445, [1])],
      expiryTimes = [0, 1],
      cursorAt =
        (\<lambda>_. \<lparr>curIndex = 0, curHash = 84696445, curItem = Some 1, curEndpointIds = [''b'']\<rparr>)
          (0 := \<lparr>curIndex = 0, curHash = 84696446, curItem = Some 0, curEndpointIds = [''a'']\<rparr>),
      itemAt =
        (\<lambda>_. \<lparr>itemCursor = 1, itemPriority = 20\<rparr>)(0 := \<lparr>itemCursor = 0, itemPriority = 10\<rparr>),
      nextCursor = 2, nextItem = 2\<rparr>"

definition collidingA :: "lbEndpoint list" where
  "collidingA = [\<lparr>Id = ''ab'', IsActive = True\<rparr>, \<lparr>Id = ''c'', IsActive = True\<rparr>]"

definition collidingB :: "lbEndpoint list" where
  "collidingB = [\<lparr>Id = ''a'', IsActive = True\<rparr>, \<lparr>Id = ''bc'', IsActive = True\<rparr>]"

section \<open>Theorems\<close>

subsection \<open>Proxy settings\<close>

lemma validateProxySettings_dial_untouched:
  "validateProxySettings (Some s) = Inr s' \<Longrightarrow> HttpDialTimeout s' = HttpDialTimeout s"
  by (auto simp: validateProxySettings_def Let_def DefaultHttpReadTimeout_def Second_def
      split: if_splits)

text \<open>
  Claim C4 says that accepted settings whose \<open>HttpDialTimeout\<close> is zero come back with
  the ten-second default.  The code tests \<open>HttpReadTimeout\<close> a second time instead of
  \<open>HttpDialTimeout\<close>, and by then the read timeout is never zero: settings with a control
  server, a backend, a load balancer and both timeouts zero are accepted, the read timeout
  becomes ten seconds, and the dial timeout is still zero.
\<close>

theorem C4_dial_timeout_stays_zero:
  "validateProxySettings
     (Some \<lparr>ControlServers = [''http://localhost:5000''], ThrottlerBackend = Some (),
            LoadBalancer = Some (), HttpReadTimeout = 0, HttpDialTimeout = 0\<rparr>)
   = Inr \<lparr>ControlServers = [''http://localhost:5000''], ThrottlerBackend = Some (),
           LoadBalancer = Some (), HttpReadTimeout = 10000000000, HttpDialTimeout = 0\<rparr>"
  by (simp add: validateProxySettings_def DefaultHttpReadTimeout_def Second_def)

subsection \<open>The store\<close>

lemma setURL_simps [simp]:
  "headers (setURL a f w) = headers w"
  "bodies (setURL a f w) = bodies w"
  "nextRef (setURL a f w) = nextRef w"
  "sent (setURL a f w) = sent w"
  "urls (setURL a f w) b = (if b = a then f (urls w a) else urls w b)"
  by (simp_all add: setURL_def)

lemma setHeader_simps [simp]:
  "urls (setHeader a f w) = urls w"
  "bodies (setHeader a f w) = bodies w"
  "nextRef (setHeader a f w) = nextRef w"
  "sent (setHeader a f w) = sent w"
  "headers (setHeader a f w) b = (if b = a then f (headers w a) else headers w b)"
  by (simp_all add: setHeader_def)

lemma makeHeader_simps [simp]:
  "fst (makeHeader w) = nextRef w"
  "urls (snd (makeHeader w)) = urls w"
  "bodies (snd (makeHeader w)) = bodies w"
  "nextRef (snd (makeHeader w)) = Suc (nextRef w)"
  "sent (snd (makeHeader w)) = sent w"
  "headers (snd (makeHeader w)) b = (if b = nextRef w then [] else headers w b)"
  by (simp_all add: makeHeader_def)

subsection \<open>Header hygiene\<close>

lemma canon_hopHeaders: "map CanonicalMIMEHeaderKey hopHeaders = hopHeaders"
  unfolding hopHeaders_def by code_simp

lemma canon_HopHeaders: "map CanonicalMIMEHeaderKey HopHeaders = HopHeaders"
  unfolding HopHeaders_def by code_simp

lemma keys_removeHeaders:
  "fst ` set (removeHeaders names h) = fst ` set h - CanonicalMIMEHeaderKey ` set names"
proof (induction names arbitrary: h)
  case Nil
  show ?case by (simp add: removeHeaders_def)
next
  case (Cons n names)
  have "removeHeaders (n # names) h = removeHeaders names (Header_Del h n)"
    by (simp add: removeHeaders_def)
  moreover have "fst ` set (Header_Del h n) = fst ` set h - {CanonicalMIMEHeaderKey n}"
    by (auto simp: Header_Del_def AList.delete_eq image_iff)
  ultimately show ?case using Cons.IH [of "Header_Del h n"] by auto
qed

lemma removeHeaders_hop_free: "fst ` set (removeHeaders hopHeaders h) \<inter> set hopHeaders = {}"
proof -
  have "CanonicalMIMEHeaderKey ` set hopHeaders = set hopHeaders"
    using canon_hopHeaders by (metis set_map)
  then show ?thesis by (auto simp: keys_removeHeaders)
qed

lemma removeHeaders_Hop_free: "fst ` set (removeHeaders HopHeaders h) \<inter> set HopHeaders = {}"
proof -
  have "CanonicalMIMEHeaderKey ` set HopHeaders = set HopHeaders"
    using canon_HopHeaders by (metis set_map)
  then show ?thesis by (auto simp: keys_removeHeaders)
qed

lemma rewriteRequest_out_header:
  "\<exists>h. headers (snd (rewriteRequest up req w)) (reqHeader (fst (rewriteRequest up req w)))
       = removeHeaders hopHeaders h"
  by (auto simp add: rewriteRequest_def Let_def split_beta split: option.splits)

lemma loc_rewriteRequest_out_header:
  "\<exists>h. headers (snd (loc_rewriteRequest shp opts req ep w))
          (reqHeader (fst (loc_rewriteRequest shp opts req ep w)))
       = removeHeaders HopHeaders h"
  by (auto simp add: loc_rewriteRequest_def Let_def split_beta split: option.splits sum.splits)

text \<open>
  Claim C5: the outbound request of \<open>rewriteRequest\<close>, in the proxy and in the location,
  has no entry under any of the eight hop-by-hop names, whatever the inbound request, the
  upstream or endpoint and the store are.
\<close>

theorem C5_no_hop_headers_outbound:
  "fst ` set (headers (snd (rewriteRequest up req w)) (reqHeader (fst (rewriteRequest up req w))))
     \<inter> set hopHeaders = {}
   \<and> fst ` set (headers (snd (loc_rewriteRequest shp opts req ep w))
          (reqHeader (fst (loc_rewriteRequest shp opts req ep w))))
     \<inter> set HopHeaders = {}"
proof -
  obtain h where "headers (snd (rewriteRequest up req w)) (reqHeader (fst (rewriteRequest up req w)))
       = removeHeaders hopHeaders h" using rewriteRequest_out_header by blast
  moreover obtain h' where "headers (snd (loc_rewriteRequest shp opts req ep w))
          (reqHeader (fst (loc_rewriteRequest shp opts req ep w)))
       = removeHeaders HopHeaders h'" using loc_rewriteRequest_out_header by blast
  ultimately show ?thesis
    using removeHeaders_hop_free removeHeaders_Hop_free by simp
qed

theorem C5_no_hop_headers_outbound_witness:
  "fst ` set (headers (snd (rewriteRequest exampleUpstream exampleRequest hopWorld))
                (reqHeader (fst (rewriteRequest exampleUpstream exampleRequest hopWorld))))
     \<inter> set hopHeaders = {}
   \<and> fst ` set (headers (snd (loc_rewriteRequest exampleSplitHostPort exampleOptions exampleRequest
                                exampleEndpoint hopWorld))
          (reqHeader (fst (loc_rewriteRequest exampleSplitHostPort exampleOptions exampleRequest
                             exampleEndpoint hopWorld))))
     \<inter> set HopHeaders = {}"
  by (rule C5_no_hop_headers_outbound)

subsection \<open>The inbound URL is rewritten in place\<close>

lemma rewriteRequest_urls:
  "reqURL (fst (rewriteRequest up req w)) = reqURL req"
  "urls (snd (rewriteRequest up req w)) (reqURL req) =
     (urls w (reqURL req))\<lparr>Scheme := Scheme (urls w (upUrl up)), Host := Host (urls w (upUrl up)),
        Path := Path (urls w (upUrl up))\<rparr>"
  by (simp_all add: rewriteRequest_def Let_def split_beta split: option.splits)

lemma loc_rewriteRequest_urls:
  "reqURL (fst (loc_rewriteRequest shp opts req ep w)) = reqURL req"
  "urls (snd (loc_rewriteRequest shp opts req ep w)) (reqURL req) =
     (urls w (reqURL req))\<lparr>Scheme := Scheme (urls w (GetUrl ep)), Host := Host (urls w (GetUrl ep))\<rparr>"
  by (simp_all add: loc_rewriteRequest_def Let_def split_beta split: option.splits sum.splits)

text \<open>
  Claim C9: the outbound request keeps the inbound request's URL pointer, and after the
  call the URL object the inbound request points to has the scheme and host (in the proxy
  also the path) that the chosen upstream or endpoint had before the call.
\<close>

theorem C9_inbound_URL_mutated:
  "reqURL (fst (rewriteRequest up req w)) = reqURL req
   \<and> Scheme (urls (snd (rewriteRequest up req w)) (reqURL req)) = Scheme (urls w (upUrl up))
   \<and> Host (urls (snd (rewriteRequest up req w)) (reqURL req)) = Host (urls w (upUrl up))
   \<and> Path (urls (snd (rewriteRequest up req w)) (reqURL req)) = Path (urls w (upUrl up))
   \<and> reqURL (fst (loc_rewriteRequest shp opts req ep w)) = reqURL req
   \<and> Scheme (urls (snd (loc_rewriteRequest shp opts req ep w)) (reqURL req)) = Scheme (urls w (GetUrl ep))
   \<and> Host (urls (snd (loc_rewriteRequest shp opts req ep w)) (reqURL req)) = Host (urls w (GetUrl ep))"
  by (simp add: rewriteRequest_urls loc_rewriteRequest_urls)

theorem C9_inbound_URL_mutated_witness:
  "Scheme (urls exampleWorld (reqURL exampleRequest)) = ''http''
   \<and> Host (urls exampleWorld (reqURL exampleRequest)) = ''proxy.local''
   \<and> Path (urls exampleWorld (reqURL exampleRequest)) = ''/in''
   \<and> reqURL (fst (rewriteRequest exampleUpstream exampleRequest exampleWorld)) = reqURL exampleRequest
   \<and> Scheme (urls (snd (rewriteRequest exampleUpstream exampleRequest exampleWorld)) (reqURL exampleRequest))
       = ''https''
   \<and> Host (urls (snd (rewriteRequest exampleUpstream exampleRequest exampleWorld)) (reqURL exampleRequest))
       = ''backend:8080''
   \<and> Path (urls (snd (rewriteRequest exampleUpstream exampleRequest exampleWorld)) (reqURL exampleRequest))
       = ''/api''
   \<and> Scheme (urls (snd (loc_rewriteRequest exampleSplitHostPort exampleOptions exampleRequest
                           exampleEndpoint exampleWorld)) (reqURL exampleRequest))
       = ''https''
   \<and> Host (urls (snd (loc_rewriteRequest exampleSplitHostPort exampleOptions exampleRequest
                         exampleEndpoint exampleWorld)) (reqURL exampleRequest))
       = ''backend:8080''"
  using C9_inbound_URL_mutated [of exampleUpstream exampleRequest exampleWorld
      exampleSplitHostPort exampleOptions exampleEndpoint]
  by (simp add: exampleWorld_def exampleRequest_def exampleUpstream_def exampleEndpoint_def
      exampleURL_def exampleUpstreamURL_def)

subsection \<open>Sharing of the header map\<close>

lemma rewriteRequest_header_ref:
  "reqHeader (fst (rewriteRequest up req w)) =
     (if upHeaders up \<noteq> None \<or> hasHeaders hopHeaders (headers w (reqHeader req))
      then nextRef w else reqHeader req)"
  by (simp add: rewriteRequest_def Let_def split_beta)

lemma rewriteRequest_headers_frame:
  "upHeaders up \<noteq> None \<or> hasHeaders hopHeaders (headers w (reqHeader req)) \<Longrightarrow>
   a \<noteq> nextRef w \<Longrightarrow> headers (snd (rewriteRequest up req w)) a = headers w a"
  by (auto simp add: rewriteRequest_def Let_def split_beta split: option.splits)

lemma loc_rewriteRequest_header_ref:
  "reqHeader (fst (loc_rewriteRequest shp opts req ep w)) = nextRef w"
  by (simp add: loc_rewriteRequest_def Let_def split_beta)

lemma loc_rewriteRequest_headers_frame:
  "a \<noteq> nextRef w \<Longrightarrow> headers (snd (loc_rewriteRequest shp opts req ep w)) a = headers w a"
  by (auto simp add: loc_rewriteRequest_def Let_def split_beta split: option.splits sum.splits)

lemma rewriteRequest_headers_shared:
  "upHeaders up = None \<Longrightarrow> \<not> hasHeaders hopHeaders (headers w (reqHeader req)) \<Longrightarrow>
   headers (snd (rewriteRequest up req w)) (reqHeader req) =
     removeHeaders hopHeaders (headers w (reqHeader req))"
  by (simp add: rewriteRequest_def Let_def split_beta)

text \<open>
  Claim C6, as amended.  For an inbound request whose header map was allocated before the
  call: the location's \<open>rewriteRequest\<close> always gives the outbound request a map of its
  own, leaves the inbound map as it was, and a later change \<open>f\<close> of the outbound map does
  not reach the inbound one.  The proxy's \<open>rewriteRequest\<close> does the same when the
  upstream has headers or \<open>hasHeaders\<close> finds a hop-by-hop header; otherwise the outbound
  request holds the inbound request's own map.
\<close>

theorem C6_fresh_header_map:
  assumes "reqHeader req < nextRef w"
  shows "(let (out, w') = loc_rewriteRequest shp opts req ep w
          in reqHeader out \<noteq> reqHeader req
             \<and> headers w' (reqHeader req) = headers w (reqHeader req)
             \<and> headers (setHeader (reqHeader out) f w') (reqHeader req) = headers w (reqHeader req))
       \<and> (let (out, w') = rewriteRequest up req w
          in if upHeaders up \<noteq> None \<or> hasHeaders hopHeaders (headers w (reqHeader req))
             then reqHeader out \<noteq> reqHeader req
                  \<and> headers w' (reqHeader req) = headers w (reqHeader req)
                  \<and> headers (setHeader (reqHeader out) f w') (reqHeader req) = headers w (reqHeader req)
             else reqHeader out = reqHeader req)"
  using assms
  by (simp add: split_beta rewriteRequest_header_ref rewriteRequest_headers_frame
      loc_rewriteRequest_header_ref loc_rewriteRequest_headers_frame)

theorem C6_fresh_header_map_witness:
  "reqHeader exampleRequest < nextRef exampleWorld
   \<and> (let (out, w') = loc_rewriteRequest exampleSplitHostPort exampleOptions exampleRequest
                         exampleEndpoint exampleWorld
      in reqHeader out \<noteq> reqHeader exampleRequest
         \<and> headers w' (reqHeader exampleRequest) = headers exampleWorld (reqHeader exampleRequest)
         \<and> headers (setHeader (reqHeader out) (\<lambda>h. Header_Del h ''Accept'') w') (reqHeader exampleRequest)
             = headers exampleWorld (reqHeader exampleRequest))
   \<and> (let (out, w') = rewriteRequest exampleUpstream exampleRequest exampleWorld
      in if upHeaders exampleUpstream \<noteq> None
            \<or> hasHeaders hopHeaders (headers exampleWorld (reqHeader exampleRequest))
         then reqHeader out \<noteq> reqHeader exampleRequest
              \<and> headers w' (reqHeader exampleRequest) = headers exampleWorld (reqHeader exampleRequest)
              \<and> headers (setHeader (reqHeader out) (\<lambda>h. Header_Del h ''Accept'') w') (reqHeader exampleRequest)
                  = headers exampleWorld (reqHeader exampleRequest)
         else reqHeader out = reqHeader exampleRequest)"
proof -
  have h: "reqHeader exampleRequest < nextRef exampleWorld"
    by (simp add: exampleRequest_def exampleWorld_def)
  show ?thesis
    by (rule conjI [OF h C6_fresh_header_map [OF h]])
qed

lemma example_no_hop: "\<not> hasHeaders hopHeaders [(''Accept'', [''*/*''])]"
  by code_simp

lemma example_remove_hop:
  "removeHeaders hopHeaders [(''Accept'', [''*/*''])] = [(''Accept'', [''*/*''])]"
  by code_simp

lemma example_del_accept: "Header_Del [(''Accept'', [''*/*''])] ''Accept'' = []"
  by code_simp

text \<open>
  Claim C6 as stated fails in the proxy: for an upstream without headers and an inbound
  request without hop-by-hop headers, the outbound request holds the inbound request's
  header map, and deleting \<open>Accept\<close> from the outbound headers deletes it from the inbound
  ones.
\<close>

theorem C6_counterexample:
  "reqHeader exampleRequest < nextRef exampleWorld
   \<and> reqHeader (fst (rewriteRequest exampleUpstream exampleRequest exampleWorld)) = reqHeader exampleRequest
   \<and> headers (setHeader (reqHeader (fst (rewriteRequest exampleUpstream exampleRequest exampleWorld)))
               (\<lambda>h. Header_Del h ''Accept'')
               (snd (rewriteRequest exampleUpstream exampleRequest exampleWorld)))
        (reqHeader exampleRequest)
      \<noteq> headers exampleWorld (reqHeader exampleRequest)"
proof -
  have hd: "headers exampleWorld (reqHeader exampleRequest) = [(''Accept'', [''*/*''])]"
    by (simp add: exampleRequest_def exampleWorld_def)
  have up: "upHeaders exampleUpstream = None" by (simp add: exampleUpstream_def)
  have nh: "\<not> hasHeaders hopHeaders (headers exampleWorld (reqHeader exampleRequest))"
    using example_no_hop hd by simp
  have r: "reqHeader (fst (rewriteRequest exampleUpstream exampleRequest exampleWorld))
      = reqHeader exampleRequest"
    using up nh by (simp add: rewriteRequest_header_ref)
  have "headers (snd (rewriteRequest exampleUpstream exampleRequest exampleWorld))
      (reqHeader exampleRequest) = [(''Accept'', [''*/*''])]"
    using rewriteRequest_headers_shared [OF up nh] hd example_remove_hop by simp
  then show ?thesis
    using r hd example_del_accept by (simp add: exampleRequest_def exampleWorld_def)
qed

subsection \<open>The hostname option\<close>

lemma map_of_removeHeaders:
  "k \<notin> CanonicalMIMEHeaderKey ` set names \<Longrightarrow> map_of (removeHeaders names h) k = map_of h k"
proof (induction names arbitrary: h)
  case Nil
  show ?case by (simp add: removeHeaders_def)
next
  case (Cons n names)
  have "removeHeaders (n # names) h = removeHeaders names (Header_Del h n)"
    by (simp add: removeHeaders_def)
  moreover have "map_of (Header_Del h n) k = map_of h k"
    using Cons.prems by (simp add: Header_Del_def)
  ultimately show ?case using Cons by simp
qed

lemma canon_XForwardedServer: "CanonicalMIMEHeaderKey XForwardedServer = XForwardedServer"
  unfolding XForwardedServer_def by code_simp

lemma XForwardedServer_no_hop: "XForwardedServer \<notin> CanonicalMIMEHeaderKey ` set HopHeaders"
proof -
  have "XForwardedServer \<notin> set HopHeaders"
    by (simp add: XForwardedServer_def HopHeaders_def)
  then show ?thesis using canon_HopHeaders by (metis set_map)
qed

lemma loc_rewriteRequest_server:
  "map_of (headers (snd (loc_rewriteRequest shp opts req ep w))
             (reqHeader (fst (loc_rewriteRequest shp opts req ep w)))) XForwardedServer
     = Some [Hostname opts]"
  by (simp add: loc_rewriteRequest_def Let_def split_beta map_of_removeHeaders
      XForwardedServer_no_hop Header_Set_def canon_XForwardedServer AList.update_conv'
      split: option.splits sum.splits)

lemma parseOptions_Hostname:
  "\<exists>o'. parseOptions (h, err) o0 = Inr o' \<and>
     Hostname o' = (if Hostname o0 = [] \<and> err \<noteq> None then h else Hostname o0)"
  by (simp add: parseOptions_def Let_def)

text \<open>
  Claim C10: for options with an empty \<open>Hostname\<close>, \<open>parseOptions\<close> stores the name the
  operating system gave only when the lookup returned an error; when the lookup succeeded
  \<open>Hostname\<close> stays empty, and every outbound request of a location with these options
  has the one value \<open>''''\<close> under \<open>X-Forwarded-Server\<close>.
\<close>

theorem C10_hostname_only_on_error:
  assumes "Hostname o0 = []"
  shows "\<exists>o'. parseOptions (h, err) o0 = Inr o'
           \<and> Hostname o' = (if err = None then [] else h)
           \<and> (if err = None
              then map_of (headers (snd (loc_rewriteRequest shp o' req ep w))
                     (reqHeader (fst (loc_rewriteRequest shp o' req ep w)))) XForwardedServer
                   = Some [[]]
              else True)"
proof -
  obtain o' where o': "parseOptions (h, err) o0 = Inr o'"
    "Hostname o' = (if Hostname o0 = [] \<and> err \<noteq> None then h else Hostname o0)"
    using parseOptions_Hostname by blast
  then show ?thesis using assms by (auto simp: loc_rewriteRequest_server)
qed

theorem C10_hostname_only_on_error_witness:
  "Hostname exampleOptions = []
   \<and> (\<exists>o'. parseOptions (''vulcan-1'', None) exampleOptions = Inr o'
           \<and> Hostname o' = []
           \<and> map_of (headers (snd (loc_rewriteRequest exampleSplitHostPort o' exampleRequest exampleEndpoint exampleWorld))
                     (reqHeader (fst (loc_rewriteRequest exampleSplitHostPort o' exampleRequest exampleEndpoint exampleWorld))))
                 XForwardedServer = Some [[]])"
  using C10_hostname_only_on_error [of exampleOptions "''vulcan-1''" None exampleSplitHostPort
      exampleRequest exampleEndpoint exampleWorld]
  by (simp add: exampleOptions_def)

subsection \<open>Failover\<close>

lemma rewriteRequest_frame [simp]:
  "bodies (snd (rewriteRequest up req w)) = bodies w"
  "sent (snd (rewriteRequest up req w)) = sent w"
  "reqBody (fst (rewriteRequest up req w)) = reqBody req"
  "a \<noteq> reqURL req \<Longrightarrow> urls (snd (rewriteRequest up req w)) a = urls w a"
  by (simp_all add: rewriteRequest_def Let_def split_beta split: option.splits)

lemma proxyToUpstream_effect:
  assumes "proxyToUpstream t rw req up w = (e, rw1, w2)"
  shows "\<exists>wr. sent w2 = sent w @ [wr]
           \<and> wireURL wr = outURL w req up
           \<and> wireBody wr = drop (rpos (bodies w (reqBody req))) (rdata (bodies w (reqBody req)))
           \<and> e = (if rbroken (bodies w (reqBody req)) \<or> snd (t (sent w) wr) = None
                  then Some (HttpError 502 StatusText) else None)"
    and "urls w2 (reqURL req) = outURL w req up"
    and "\<And>a. a \<noteq> reqURL req \<Longrightarrow> urls w2 a = urls w a"
    and "\<And>a. rdata (bodies w2 a) = rdata (bodies w a)"
    and "\<And>a. rbroken (bodies w2 a) = rbroken (bodies w a)"
  using assms
  by (auto simp: proxyToUpstream_def RoundTrip_def Let_def split_beta outURL_def
      rewriteRequest_urls NewHttpError_def StatusBadGateway_def split: option.splits if_splits)


lemma Seek_start: "Seek r 0 0 = Inr (r\<lparr>rpos := 0\<rparr>)"
  by (simp add: Seek_def)

lemma outcomes_append:
  "outcomes t hist (xs @ ys) = outcomes t hist xs @ outcomes t (hist @ xs) ys"
  by (induction xs arbitrary: hist) auto

lemma outURL_cong:
  assumes "urls w' (reqURL req) = outURL w req u0"
    and "\<And>a. a \<noteq> reqURL req \<Longrightarrow> urls w' a = urls w a"
    and "upUrl up \<noteq> reqURL req"
  shows "outURL w' req up = outURL w req up"
  using assms by (simp add: outURL_def)

lemma proxyRequest_loop_trace:
  assumes "reqBody req = rd" and "rdata (bodies w rd) = b" and "\<not> rbroken (bodies w rd)"
  shows "\<exists>k rw' w'. k \<le> length us
      \<and> proxyRequest_loop t rw req rd us w =
          ((if k < length us then Some (us ! k) else None,
            if k < length us then None else Some (HttpError 502 StatusText)), rw', w')
      \<and> (\<exists>new. sent w' = sent w @ new
            \<and> length new = length (take (Suc k) us)
            \<and> map wireBody new = replicate (length new) b
            \<and> outcomes t (sent w) new = replicate k False @ (if k < length us then [True] else [])
            \<and> (reqURL req \<notin> upUrl ` set us \<longrightarrow>
                 map wireURL new = map (outURL w req) (take (Suc k) us)))"
  using assms
proof (induction us arbitrary: w rw)
  case Nil
  show ?case
    by (rule exI [of _ 0]) (simp add: NewHttpError_def StatusBadGateway_def)
next
  case (Cons up rest)
  let ?w0 = "w\<lparr>bodies := (bodies w)(rd := (bodies w rd)\<lparr>rpos := 0\<rparr>)\<rparr>"
  obtain e rw1 w1 where step: "proxyToUpstream t rw req up ?w0 = (e, rw1, w1)"
    by (cases "proxyToUpstream t rw req up ?w0") auto
  from proxyToUpstream_effect [OF step]
  obtain wr where wr: "sent w1 = sent ?w0 @ [wr]" "wireURL wr = outURL ?w0 req up"
      "wireBody wr = drop (rpos (bodies ?w0 (reqBody req))) (rdata (bodies ?w0 (reqBody req)))"
      "e = (if rbroken (bodies ?w0 (reqBody req)) \<or> snd (t (sent ?w0) wr) = None
            then Some (HttpError 502 StatusText) else None)"
    and u1: "urls w1 (reqURL req) = outURL ?w0 req up"
    and u2: "\<And>a. a \<noteq> reqURL req \<Longrightarrow> urls w1 a = urls ?w0 a"
    and d1: "\<And>a. rdata (bodies w1 a) = rdata (bodies ?w0 a)"
    and d2: "\<And>a. rbroken (bodies w1 a) = rbroken (bodies ?w0 a)"
    by blast
  have nb: "\<not> rbroken (bodies ?w0 (reqBody req))" using Cons.prems by simp
  have wb: "wireBody wr = b" using wr(3) Cons.prems by simp
  have wu: "wireURL wr = outURL w req up" using wr(2) by (simp add: outURL_def)
  have sw: "sent w1 = sent w @ [wr]" using wr(1) by simp
  show ?case
  proof (cases "snd (t (sent w) wr) = None")
    case False
    then have "e = None" using wr(4) nb by simp
    then have "proxyRequest_loop t rw req rd (up # rest) w = ((Some up, None), rw1, w1)"
      using step by (simp add: Seek_start)
    then show ?thesis
      using sw wb wu False
      by (intro exI [of _ 0] exI [of _ rw1] exI [of _ w1]) (auto intro!: exI [of _ "[wr]"])
  next
    case True
    then have e: "e = Some (HttpError 502 StatusText)" using wr(4) by simp
    then have loop: "proxyRequest_loop t rw req rd (up # rest) w = proxyRequest_loop t rw1 req rd rest w1"
      using step by (simp add: Seek_start)
    have p3: "rdata (bodies w1 rd) = b" using d1 Cons.prems by simp
    have p4: "\<not> rbroken (bodies w1 rd)" using d2 Cons.prems by simp
    from Cons.IH [OF Cons.prems(1) p3 p4, of rw1]
    obtain k rw' w' new where k: "k \<le> length rest"
      and res: "proxyRequest_loop t rw1 req rd rest w1 =
          ((if k < length rest then Some (rest ! k) else None,
            if k < length rest then None else Some (HttpError 502 StatusText)), rw', w')"
      and new: "sent w' = sent w1 @ new"
        "length new = length (take (Suc k) rest)"
        "map wireBody new = replicate (length new) b"
        "outcomes t (sent w1) new = replicate k False @ (if k < length rest then [True] else [])"
      and newurl: "reqURL req \<notin> upUrl ` set rest \<longrightarrow>
          map wireURL new = map (outURL w1 req) (take (Suc k) rest)"
      by blast
    have urlpart: "map wireURL (wr # new) = map (outURL w req) (take (Suc (Suc k)) (up # rest))"
      if na: "reqURL req \<notin> upUrl ` set (up # rest)"
    proof -
      have p1: "reqURL req \<notin> upUrl ` set rest" using na by auto
      have "\<And>u. u \<in> set rest \<Longrightarrow> outURL w1 req u = outURL w req u"
      proof -
        fix u assume "u \<in> set rest"
        then have ne: "upUrl u \<noteq> reqURL req" using p1 by (metis imageI)
        have "urls w1 (reqURL req) = outURL w req up" using u1 by (simp add: outURL_def)
        moreover have "\<And>a. a \<noteq> reqURL req \<Longrightarrow> urls w1 a = urls w a" using u2 by simp
        ultimately show "outURL w1 req u = outURL w req u" using ne by (rule outURL_cong)
      qed
      then have "map (outURL w1 req) (take (Suc k) rest) = map (outURL w req) (take (Suc k) rest)"
        by (auto dest: in_set_takeD)
      then show ?thesis using newurl p1 wu by simp
    qed
    show ?thesis
    proof (intro exI [of _ "Suc k"] exI [of _ rw'] exI [of _ w'] conjI)
      show "Suc k \<le> length (up # rest)" using k by simp
      show "proxyRequest_loop t rw req rd (up # rest) w =
          ((if Suc k < length (up # rest) then Some ((up # rest) ! Suc k) else None,
            if Suc k < length (up # rest) then None else Some (HttpError 502 StatusText)), rw', w')"
        using loop res by simp
      show "\<exists>new. sent w' = sent w @ new
            \<and> length new = length (take (Suc (Suc k)) (up # rest))
            \<and> map wireBody new = replicate (length new) b
            \<and> outcomes t (sent w) new =
                replicate (Suc k) False @ (if Suc k < length (up # rest) then [True] else [])
            \<and> (reqURL req \<notin> upUrl ` set (up # rest) \<longrightarrow>
                 map wireURL new = map (outURL w req) (take (Suc (Suc k)) (up # rest)))"
        using new sw wb True urlpart
        by (intro exI [of _ "wr # new"]) simp
    qed
  qed
qed

lemma flaky_second_answers:
  assumes "k \<le> length [a, b]"
    and "length new = length (take (Suc k) [a, b])"
    and "outcomes flakyTransport [] new =
           replicate k False @ (if k < length [a, b] then [True] else [])"
  shows "k = 1"
proof -
  from assms(1) consider "k = 0" | "k = 1" | "k = 2" by fastforce
  then show ?thesis
  proof cases
    case 1
    with assms(2) obtain x where "new = [x]" by (auto simp: length_Suc_conv)
    with assms(3) 1 show ?thesis by (simp add: flakyTransport_def)
  next
    case 2
    then show ?thesis .
  next
    case 3
    with assms(2) obtain x y where "new = [x, y]"
      by (auto simp: length_Suc_conv numeral_2_eq_2)
    with assms(3) 3 show ?thesis by (simp add: flakyTransport_def numeral_2_eq_2)
  qed
qed

text \<open>
  Claim C1, as amended.  With failover and a body that can be read, \<open>proxyRequest\<close>
  hands the transport one request per upstream, in list order, each carrying the whole
  buffered body (the reader is back at position 0), up to and including the first upstream
  \<open>us ! k\<close> for which the transport gives a response, and returns that upstream; when
  the transport fails for all of them (\<open>k = length us\<close>) it returns HttpError 502.
  When the request's URL object is not also the URL object of an upstream, the requests
  carry the URLs of these upstreams, in this order.  With failover and a body that cannot
  be read, \<open>proxyRequest\<close> returns HttpError 400 and no upstream, and leaves the response
  writer, the request and the store as they were: nothing is handed to the transport.
  Without failover, exactly one request goes out, to the first upstream, and its failure
  (the body cannot be read, or the transport gives no response) is HttpError 502.
\<close>

theorem C1_failover_in_order:
  "(\<not> rbroken (bodies w (reqBody req)) \<longrightarrow>
      (\<exists>k rw' req' w' new. k \<le> length us
        \<and> proxyRequest t True rw req us w =
            Inr ((if k < length us then Some (us ! k) else None,
                  if k < length us then None else Some (HttpError 502 StatusText)), rw', req', w')
        \<and> sent w' = sent w @ new
        \<and> length new = length (take (Suc k) us)
        \<and> map wireBody new =
            replicate (length new) (drop (rpos (bodies w (reqBody req))) (rdata (bodies w (reqBody req))))
        \<and> outcomes t (sent w) new = replicate k False @ (if k < length us then [True] else [])
        \<and> (reqURL req \<notin> upUrl ` set us \<longrightarrow>
             map wireURL new = map (outURL w req) (take (Suc k) us))))
   \<and> (rbroken (bodies w (reqBody req)) \<longrightarrow>
        proxyRequest t True rw req us w = Inr ((None, Some (HttpError 400 StatusText)), rw, req, w))
   \<and> (\<exists>e rw' w' wr. proxyRequest t False rw req (u0 # rest) w = Inr ((Some u0, e), rw', req, w')
        \<and> sent w' = sent w @ [wr]
        \<and> wireURL wr = outURL w req u0
        \<and> e = (if rbroken (bodies w (reqBody req)) \<or> snd (t (sent w) wr) = None
               then Some (HttpError 502 StatusText) else None))"
proof (intro conjI impI)
  assume a: "\<not> rbroken (bodies w (reqBody req))"
  let ?r = "bodies w (reqBody req)"
  let ?b = "drop (rpos ?r) (rdata ?r)"
  let ?w1 = "w\<lparr>bodies := (bodies w)(reqBody req := ?r\<lparr>rpos := length (rdata ?r)\<rparr>)\<rparr>"
  let ?rd = "nextRef w"
  let ?w2 = "?w1\<lparr>bodies := (bodies ?w1)(?rd := NewReader ?b), nextRef := Suc ?rd\<rparr>"
  let ?req1 = "req\<lparr>reqBody := ?rd\<rparr>"
  have h2: "reqBody ?req1 = ?rd" by simp
  have h3: "rdata (bodies ?w2 ?rd) = ?b" by (simp add: NewReader_def)
  have h4: "\<not> rbroken (bodies ?w2 ?rd)" by (simp add: NewReader_def)
  from proxyRequest_loop_trace [OF h2 h3 h4, of us t rw]
  obtain k rw' w' new where k: "k \<le> length us"
    and res: "proxyRequest_loop t rw ?req1 ?rd us ?w2 =
          ((if k < length us then Some (us ! k) else None,
            if k < length us then None else Some (HttpError 502 StatusText)), rw', w')"
    and new: "sent w' = sent ?w2 @ new"
      "length new = length (take (Suc k) us)"
      "map wireBody new = replicate (length new) ?b"
      "outcomes t (sent ?w2) new = replicate k False @ (if k < length us then [True] else [])"
      "reqURL ?req1 \<notin> upUrl ` set us \<longrightarrow>
          map wireURL new = map (outURL ?w2 ?req1) (take (Suc k) us)"
    by blast
  have ou: "outURL ?w2 ?req1 = outURL w req" by (rule ext) (simp add: outURL_def)
  have "proxyRequest t True rw req us w =
      Inr ((if k < length us then Some (us ! k) else None,
            if k < length us then None else Some (HttpError 502 StatusText)), rw', ?req1, w')"
    using a res by (simp add: proxyRequest_def ReadAll_def Let_def)
  then show "\<exists>k rw' req' w' new. k \<le> length us
        \<and> proxyRequest t True rw req us w =
            Inr ((if k < length us then Some (us ! k) else None,
                  if k < length us then None else Some (HttpError 502 StatusText)), rw', req', w')
        \<and> sent w' = sent w @ new
        \<and> length new = length (take (Suc k) us)
        \<and> map wireBody new = replicate (length new) ?b
        \<and> outcomes t (sent w) new = replicate k False @ (if k < length us then [True] else [])
        \<and> (reqURL req \<notin> upUrl ` set us \<longrightarrow>
             map wireURL new = map (outURL w req) (take (Suc k) us))"
    using k new ou by (intro exI [of _ k] exI [of _ rw'] exI [of _ ?req1] exI [of _ w'] exI [of _ new]) simp
next
  assume "rbroken (bodies w (reqBody req))"
  then show "proxyRequest t True rw req us w
      = Inr ((None, Some (HttpError 400 StatusText)), rw, req, w)"
    by (simp add: proxyRequest_def ReadAll_def NewHttpError_def StatusBadRequest_def)
next
  obtain e rw1 w1 where step: "proxyToUpstream t rw req u0 w = (e, rw1, w1)"
    by (cases "proxyToUpstream t rw req u0 w") auto
  from proxyToUpstream_effect(1) [OF step]
  obtain wr where "sent w1 = sent w @ [wr]" "wireURL wr = outURL w req u0"
      "e = (if rbroken (bodies w (reqBody req)) \<or> snd (t (sent w) wr) = None
            then Some (HttpError 502 StatusText) else None)"
    by blast
  moreover have "proxyRequest t False rw req (u0 # rest) w = Inr ((Some u0, e), rw1, req, w1)"
    using step by (simp add: proxyRequest_def)
  ultimately show "\<exists>e rw' w' wr. proxyRequest t False rw req (u0 # rest) w = Inr ((Some u0, e), rw', req, w')
        \<and> sent w' = sent w @ [wr]
        \<and> wireURL wr = outURL w req u0
        \<and> e = (if rbroken (bodies w (reqBody req)) \<or> snd (t (sent w) wr) = None
               then Some (HttpError 502 StatusText) else None)"
    by blast
qed

text \<open>
  The theorem at work.  The first upstream's forward fails and the second's succeeds: both
  are handed the whole body \<open>[1, 2, 3]\<close>, in list order, each under its own URL, and the
  second upstream is returned.  With the same two upstreams and a body that cannot be
  read, the result is HttpError 400 and the store is untouched.
\<close>

theorem C1_failover_in_order_witness:
  "\<not> rbroken (bodies failoverWorld (reqBody exampleRequest))
   \<and> reqURL exampleRequest \<notin> upUrl ` set [exampleUpstream, secondUpstream]
   \<and> (\<exists>rw' req' w' new.
        proxyRequest flakyTransport True exampleWriter exampleRequest
            [exampleUpstream, secondUpstream] failoverWorld
          = Inr ((Some secondUpstream, None), rw', req', w')
        \<and> sent w' = new
        \<and> map wireBody new = [[1, 2, 3], [1, 2, 3]]
        \<and> outcomes flakyTransport [] new = [False, True]
        \<and> map wireURL new = [outURL failoverWorld exampleRequest exampleUpstream,
                              outURL failoverWorld exampleRequest secondUpstream])
   \<and> rbroken (bodies brokenWorld (reqBody exampleRequest))
   \<and> proxyRequest flakyTransport True exampleWriter exampleRequest
         [exampleUpstream, secondUpstream] brokenWorld
       = Inr ((None, Some (HttpError 400 StatusText)), exampleWriter, exampleRequest, brokenWorld)"
proof -
  let ?us = "[exampleUpstream, secondUpstream]"
  have h: "\<not> rbroken (bodies failoverWorld (reqBody exampleRequest))"
    by (simp add: failoverWorld_def exampleWorld_def exampleReader_def)
  have b: "drop (rpos (bodies failoverWorld (reqBody exampleRequest)))
      (rdata (bodies failoverWorld (reqBody exampleRequest))) = [1, 2, 3]"
    by (simp add: failoverWorld_def exampleWorld_def exampleReader_def)
  have na: "reqURL exampleRequest \<notin> upUrl ` set ?us"
    by (simp add: exampleRequest_def exampleUpstream_def secondUpstream_def)
  have s: "sent failoverWorld = []"
    by (simp add: failoverWorld_def exampleWorld_def)
  have br: "rbroken (bodies brokenWorld (reqBody exampleRequest))"
    by (simp add: brokenWorld_def)
  note ok_case = C1_failover_in_order [of failoverWorld exampleRequest ?us flakyTransport
      exampleWriter exampleUpstream "[]"]
  note broken_case = C1_failover_in_order [of brokenWorld exampleRequest ?us flakyTransport
      exampleWriter exampleUpstream "[]"]
  from ok_case [THEN conjunct1, THEN mp, OF h]
  obtain k rw' req' w' new where k: "k \<le> length ?us"
    and res: "proxyRequest flakyTransport True exampleWriter exampleRequest ?us failoverWorld =
       Inr ((if k < length ?us then Some (?us ! k) else None,
             if k < length ?us then None else Some (HttpError 502 StatusText)),
            rw', req', w')"
    and snt: "sent w' = sent failoverWorld @ new"
    and len: "length new = length (take (Suc k) ?us)"
    and bod: "map wireBody new = replicate (length new)
        (drop (rpos (bodies failoverWorld (reqBody exampleRequest)))
           (rdata (bodies failoverWorld (reqBody exampleRequest))))"
    and out: "outcomes flakyTransport (sent failoverWorld) new =
        replicate k False @ (if k < length ?us then [True] else [])"
    and url: "reqURL exampleRequest \<notin> upUrl ` set ?us \<longrightarrow>
       map wireURL new = map (outURL failoverWorld exampleRequest) (take (Suc k) ?us)"
    by blast
  have k1: "k = 1"
    using k len out [unfolded s] by (rule flaky_second_answers)
  have l2: "length new = 2" using len k1 by simp
  have f1: "proxyRequest flakyTransport True exampleWriter exampleRequest ?us failoverWorld
      = Inr ((Some secondUpstream, None), rw', req', w')"
    using res k1 by simp
  have f2: "sent w' = new" using snt s by simp
  have f3: "map wireBody new = [[1, 2, 3], [1, 2, 3]]"
    using bod b l2 by (simp add: numeral_2_eq_2)
  have f4: "outcomes flakyTransport [] new = [False, True]"
    using out s k1 by simp
  have f5: "map wireURL new = [outURL failoverWorld exampleRequest exampleUpstream,
      outURL failoverWorld exampleRequest secondUpstream]"
    using url na k1 by simp
  have f6: "proxyRequest flakyTransport True exampleWriter exampleRequest ?us brokenWorld
      = Inr ((None, Some (HttpError 400 StatusText)), exampleWriter, exampleRequest, brokenWorld)"
    by (rule broken_case [THEN conjunct2, THEN conjunct1, THEN mp, OF br])
  have ex: "\<exists>rw' req' w' new.
        proxyRequest flakyTransport True exampleWriter exampleRequest ?us failoverWorld
          = Inr ((Some secondUpstream, None), rw', req', w')
        \<and> sent w' = new
        \<and> map wireBody new = [[1, 2, 3], [1, 2, 3]]
        \<and> outcomes flakyTransport [] new = [False, True]
        \<and> map wireURL new = [outURL failoverWorld exampleRequest exampleUpstream,
                              outURL failoverWorld exampleRequest secondUpstream]"
    by (rule exI [of _ rw'], rule exI [of _ req'], rule exI [of _ w'], rule exI [of _ new])
       (intro conjI f1 f2 f3 f4 f5)
  show ?thesis by (intro conjI h na ex br f6)
qed

text \<open>
  Claim C1 as stated fails when the body cannot be read: with failover and one upstream,
  \<open>proxyRequest\<close> returns no upstream and HttpError 400, which is neither the first
  upstream whose forward succeeds nor HttpError 502, and it hands nothing to the
  transport (the store is unchanged).
\<close>

theorem C1_counterexample:
  "proxyRequest okTransport True exampleWriter exampleRequest [exampleUpstream] brokenWorld
     = Inr ((None, Some (HttpError 400 StatusText)), exampleWriter, exampleRequest, brokenWorld)
   \<and> sent brokenWorld = []"
  by (simp add: proxyRequest_def ReadAll_def brokenWorld_def exampleWorld_def NewHttpError_def
      StatusBadRequest_def fun_upd_idem)

subsection \<open>Choosing the upstreams\<close>

lemma canon_ContentType: "CanonicalMIMEHeaderKey ''Content-Type'' = ''Content-Type''"
  by code_simp

lemma canon_RetryAfter: "CanonicalMIMEHeaderKey ''Retry-After'' = ''Retry-After''"
  by code_simp

lemma replyError_HttpError:
  "replyError json (HttpError code body) rw req w =
     (rw\<lparr>rwHeader := AList.update ''Content-Type'' [''application/json''] (rwHeader rw),
         rwStatus := (case rwStatus rw of None \<Rightarrow> Some code | Some c \<Rightarrow> Some c),
         rwBody := rwBody rw @ json body\<rparr>,
      w\<lparr>bodies := (bodies w)(reqBody req := snd (ReadAll (bodies w (reqBody req))))\<rparr>)"
  by (simp add: replyError_def Let_def WriteHeader_def Header_Set_def canon_ContentType
      split: option.splits)

text \<open>
  Claim C2, as amended.  When the throttler returns an error, \<open>getUpstreams\<close> returns what
  the load balancer's \<open>sortedUpstreams\<close> gives for the whole candidate list of the
  instructions; when it returns no error and no stats, \<open>getUpstreams\<close> returns the
  TooManyRequestsError of the throttler's retry seconds, an HttpError with status 429
  carrying these seconds; otherwise it returns what \<open>sortedUpstreamsByStats\<close> gives for
  the stats.  In the second case \<open>ServeHTTP\<close> answers through \<open>replyError\<close> and hands
  nothing to the transport: the status written is 429 (unless a status had been written
  before), the body written is the JSON document of the error, which carries the seconds,
  \<^verbatim>\<open>Content-Type\<close> is set to \<^verbatim>\<open>application/json\<close>, and every other response header,
  \<^verbatim>\<open>Retry-After\<close> among them, is what it was before the call: no
  \<^verbatim>\<open>Retry-After\<close> header is set.
\<close>

theorem C2_getUpstreams_cases:
  assumes "throttle ins = (stats, retrySeconds, err)"
  shows "getUpstreams throttle lb ins =
           (if err \<noteq> None then sortedUpstreams lb (Upstreams ins)
            else if stats = [] then Inl (HttpError 429 (RetrySeconds retrySeconds))
            else sortedUpstreamsByStats lb stats)
     \<and> (err = None \<and> stats = [] \<and> pThrottle p = throttle \<and> pLoadBalancer p = lb
          \<and> sortedUrls lb (pControlServers p) = Inr servers
          \<and> getInstructions servers req w = (Inr ins, w1) \<longrightarrow>
        (\<exists>rw' w'. ServeHTTP json getInstructions p rw req w = Inr (rw', w')
           \<and> rwStatus rw' = (case rwStatus rw of None \<Rightarrow> Some 429 | Some c \<Rightarrow> Some c)
           \<and> rwBody rw' = rwBody rw @ json (RetrySeconds retrySeconds)
           \<and> Header_Get (rwHeader rw') ''Content-Type'' = ''application/json''
           \<and> (\<forall>k. k \<noteq> ''Content-Type'' \<longrightarrow> map_of (rwHeader rw') k = map_of (rwHeader rw) k)
           \<and> Header_Get (rwHeader rw') ''Retry-After'' = Header_Get (rwHeader rw) ''Retry-After''
           \<and> sent w' = sent w1))"
proof (intro conjI impI)
  show g: "getUpstreams throttle lb ins =
           (if err \<noteq> None then sortedUpstreams lb (Upstreams ins)
            else if stats = [] then Inl (HttpError 429 (RetrySeconds retrySeconds))
            else sortedUpstreamsByStats lb stats)"
    using assms
    by (simp add: getUpstreams_def TooManyRequestsError_def StatusTooManyRequests_def)
  assume a: "err = None \<and> stats = [] \<and> pThrottle p = throttle \<and> pLoadBalancer p = lb
          \<and> sortedUrls lb (pControlServers p) = Inr servers
          \<and> getInstructions servers req w = (Inr ins, w1)"
  let ?rw = "rw\<lparr>rwHeader := AList.update ''Content-Type'' [''application/json''] (rwHeader rw),
         rwStatus := (case rwStatus rw of None \<Rightarrow> Some 429 | Some c \<Rightarrow> Some c),
         rwBody := rwBody rw @ json (RetrySeconds retrySeconds)\<rparr>"
  let ?w = "w1\<lparr>bodies := (bodies w1)(reqBody req := snd (ReadAll (bodies w1 (reqBody req))))\<rparr>"
  have s: "ServeHTTP json getInstructions p rw req w = Inr (?rw, ?w)"
    using a g by (simp add: ServeHTTP_def replyError_HttpError)
  show "\<exists>rw' w'. ServeHTTP json getInstructions p rw req w = Inr (rw', w')
           \<and> rwStatus rw' = (case rwStatus rw of None \<Rightarrow> Some 429 | Some c \<Rightarrow> Some c)
           \<and> rwBody rw' = rwBody rw @ json (RetrySeconds retrySeconds)
           \<and> Header_Get (rwHeader rw') ''Content-Type'' = ''application/json''
           \<and> (\<forall>k. k \<noteq> ''Content-Type'' \<longrightarrow> map_of (rwHeader rw') k = map_of (rwHeader rw) k)
           \<and> Header_Get (rwHeader rw') ''Retry-After'' = Header_Get (rwHeader rw) ''Retry-After''
           \<and> sent w' = sent w1"
    by (rule exI [of _ ?rw], rule exI [of _ ?w])
       (simp add: s Header_Get_def canon_ContentType canon_RetryAfter update_conv')
qed

text \<open>
  The theorem at work: a throttler that is down (the candidates come back in the
  balancer's order), one that has room (the upstreams of its stats come back), and one
  that has none and asks for 30 seconds: \<open>ServeHTTP\<close> then writes status 429 and the
  document of the 30 seconds, and the response has no \<^verbatim>\<open>Retry-After\<close> header.
\<close>

theorem C2_getUpstreams_cases_witness:
  "downThrottle exampleInstructions = ([], 0, Some (Errorf ''backend unavailable''))
   \<and> getUpstreams downThrottle exampleBalancer exampleInstructions
       = Inr [\<lparr>upUrl = 5, upHeaders = None\<rparr>, \<lparr>upUrl = 3, upHeaders = None\<rparr>]
   \<and> openThrottle exampleInstructions = ([5, 3], 0, None)
   \<and> getUpstreams openThrottle exampleBalancer exampleInstructions
       = Inr [\<lparr>upUrl = 5, upHeaders = None\<rparr>, \<lparr>upUrl = 3, upHeaders = None\<rparr>]
   \<and> fullThrottle exampleInstructions = ([], 30, None)
   \<and> getUpstreams fullThrottle exampleBalancer exampleInstructions
       = Inl (HttpError 429 (RetrySeconds 30))
   \<and> pThrottle fullProxy = fullThrottle \<and> pLoadBalancer fullProxy = exampleBalancer
   \<and> sortedUrls exampleBalancer (pControlServers fullProxy) = Inr [''http://localhost:5000'']
   \<and> exampleGetInstructions [''http://localhost:5000''] exampleRequest exampleWorld
       = (Inr exampleInstructions, exampleWorld)
   \<and> (\<exists>rw' w'. ServeHTTP exampleJson exampleGetInstructions fullProxy exampleWriter
                   exampleRequest exampleWorld = Inr (rw', w')
         \<and> rwStatus rw' = Some 429
         \<and> rwBody rw' = exampleJson (RetrySeconds 30)
         \<and> Header_Get (rwHeader rw') ''Content-Type'' = ''application/json''
         \<and> Header_Get (rwHeader rw') ''Retry-After'' = []
         \<and> sent w' = [])"
proof -
  have d: "downThrottle exampleInstructions = ([], 0, Some (Errorf ''backend unavailable''))"
    by (simp add: downThrottle_def)
  have o: "openThrottle exampleInstructions = ([5, 3], 0, None)"
    by (simp add: openThrottle_def)
  have f: "fullThrottle exampleInstructions = ([], 30, None)"
    by (simp add: fullThrottle_def)
  have e1: "pThrottle fullProxy = fullThrottle" "pLoadBalancer fullProxy = exampleBalancer"
    by (simp_all add: fullProxy_def)
  have e2: "sortedUrls exampleBalancer (pControlServers fullProxy) = Inr [''http://localhost:5000'']"
    by (simp add: fullProxy_def exampleBalancer_def)
  have e3: "exampleGetInstructions [''http://localhost:5000''] exampleRequest exampleWorld
       = (Inr exampleInstructions, exampleWorld)"
    by (simp add: exampleGetInstructions_def)
  have w0: "rwStatus exampleWriter = None" "rwBody exampleWriter = []"
      "Header_Get (rwHeader exampleWriter) ''Retry-After'' = []" "sent exampleWorld = []"
    by (simp_all add: exampleWriter_def exampleWorld_def Header_Get_def)
  note down_case = C2_getUpstreams_cases [where throttle = downThrottle
      and ins = exampleInstructions and lb = exampleBalancer, OF d, THEN conjunct1]
  note open_case = C2_getUpstreams_cases [where throttle = openThrottle
      and ins = exampleInstructions and lb = exampleBalancer, OF o, THEN conjunct1]
  note full_case = C2_getUpstreams_cases [where throttle = fullThrottle
      and ins = exampleInstructions and lb = exampleBalancer and p = fullProxy
      and servers = "[''http://localhost:5000'']" and getInstructions = exampleGetInstructions
      and req = exampleRequest and w = exampleWorld and ?w1.0 = exampleWorld
      and json = exampleJson and rw = exampleWriter, OF f]
  have g1: "getUpstreams downThrottle exampleBalancer exampleInstructions
       = Inr [\<lparr>upUrl = 5, upHeaders = None\<rparr>, \<lparr>upUrl = 3, upHeaders = None\<rparr>]"
    using down_case by (simp add: exampleBalancer_def exampleInstructions_def)
  have g2: "getUpstreams openThrottle exampleBalancer exampleInstructions
       = Inr [\<lparr>upUrl = 5, upHeaders = None\<rparr>, \<lparr>upUrl = 3, upHeaders = None\<rparr>]"
    using open_case by (simp add: exampleBalancer_def)
  have g3: "getUpstreams fullThrottle exampleBalancer exampleInstructions
       = Inl (HttpError 429 (RetrySeconds 30))"
    using full_case [THEN conjunct1] by simp
  have g4: "\<exists>rw' w'. ServeHTTP exampleJson exampleGetInstructions fullProxy exampleWriter
                   exampleRequest exampleWorld = Inr (rw', w')
         \<and> rwStatus rw' = Some 429
         \<and> rwBody rw' = exampleJson (RetrySeconds 30)
         \<and> Header_Get (rwHeader rw') ''Content-Type'' = ''application/json''
         \<and> Header_Get (rwHeader rw') ''Retry-After'' = []
         \<and> sent w' = []"
    using full_case [THEN conjunct2] e1 e2 e3 w0 by simp blast
  show ?thesis by (intro conjI d o f e1 e2 e3 g1 g2 g3 g4)
qed

text \<open>
  Claim C2 as stated fails in what it says of the response: with a throttler that has no
  room and asks for 30 seconds, \<open>getUpstreams\<close> returns the error for 429 with the 30
  seconds, and the response \<open>ServeHTTP\<close> writes has status 429, the document of the 30
  seconds as its body and \<^verbatim>\<open>Content-Type\<close> as its only header: there is no
  \<^verbatim>\<open>Retry-After\<close> header.
\<close>

theorem C2_counterexample:
  "getUpstreams fullThrottle exampleBalancer exampleInstructions
     = Inl (HttpError 429 (RetrySeconds 30))
   \<and> ServeHTTP exampleJson exampleGetInstructions fullProxy exampleWriter exampleRequest exampleWorld
     = Inr (\<lparr>rwHeader = [(''Content-Type'', [''application/json''])], rwStatus = Some 429,
             rwBody = exampleJson (RetrySeconds 30)\<rparr>,
            exampleWorld\<lparr>bodies := (bodies exampleWorld)(2 := exampleReader\<lparr>rpos := 3\<rparr>)\<rparr>)
   \<and> map_of [(''Content-Type'', [''application/json''])] ''Retry-After'' = None
   \<and> Header_Get [(''Content-Type'', [''application/json''])] ''Retry-After'' = []"
proof (intro conjI)
  show g: "getUpstreams fullThrottle exampleBalancer exampleInstructions
     = Inl (HttpError 429 (RetrySeconds 30))"
    by (simp add: getUpstreams_def fullThrottle_def TooManyRequestsError_def
        StatusTooManyRequests_def)
  show "ServeHTTP exampleJson exampleGetInstructions fullProxy exampleWriter exampleRequest exampleWorld
     = Inr (\<lparr>rwHeader = [(''Content-Type'', [''application/json''])], rwStatus = Some 429,
             rwBody = exampleJson (RetrySeconds 30)\<rparr>,
            exampleWorld\<lparr>bodies := (bodies exampleWorld)(2 := exampleReader\<lparr>rpos := 3\<rparr>)\<rparr>)"
  proof -
    have e: "sortedUrls exampleBalancer (pControlServers fullProxy)
          = Inr [''http://localhost:5000'']"
        "pThrottle fullProxy = fullThrottle" "pLoadBalancer fullProxy = exampleBalancer"
      by (simp_all add: fullProxy_def exampleBalancer_def)
    have r: "ReadAll (bodies exampleWorld 2) = (Inr [1, 2, 3], exampleReader\<lparr>rpos := 3\<rparr>)"
        "reqBody exampleRequest = 2"
      by (simp_all add: ReadAll_def exampleWorld_def exampleReader_def exampleRequest_def)
    show ?thesis
      by (simp add: ServeHTTP_def e g r exampleGetInstructions_def replyError_HttpError
          exampleWriter_def)
  qed
  show "map_of [(''Content-Type'', [''application/json''])] ''Retry-After'' = None"
    by simp
  show "Header_Get [(''Content-Type'', [''application/json''])] ''Retry-After'' = []"
    by (simp add: Header_Get_def canon_RetryAfter)
qed

subsection \<open>Weight adjustment\<close>

lemma sdiv_le_bound:
  fixes w d m :: int
  assumes "1 < d" "w \<le> m" "0 \<le> m"
  shows "w sdiv d \<le> m"
proof (cases "0 \<le> w")
  case True
  then have "w sdiv d = w div d" using assms(1) by (simp add: signed_divide_int_def sgn_if)
  moreover have "w div d \<le> w" using True assms(1)
    by (metis div_by_1 zdiv_mono2 less_imp_le zero_less_one)
  ultimately show ?thesis using assms(2) by simp
next
  case False
  then have "w sdiv d = - (\<bar>w\<bar> div d)" using assms(1) by (simp add: signed_divide_int_def sgn_if)
  moreover have "0 \<le> \<bar>w\<bar> div d" using assms(1) by (simp add: pos_imp_zdiv_nonneg_iff)
  ultimately show ?thesis using assms(3) by simp
qed

lemma normalizeWeights_bounded: "bounded ws \<Longrightarrow> bounded (normalizeWeights g ws)"
  by (auto simp: bounded_def normalizeWeights_def Let_def list_all_iff FSMMaxWeight_def
      intro!: sdiv_le_bound)

lemma decrease_bounded:
  "target \<le> FSMMaxWeight \<Longrightarrow> current \<le> FSMMaxWeight \<Longrightarrow> decrease target current \<le> FSMMaxWeight"
  using sdiv_le_bound [of FSMGrowFactor current FSMMaxWeight]
  by (simp add: decrease_def Let_def FSMGrowFactor_def FSMMaxWeight_def)

lemma convergeWeights_bounded:
  "endpointsBounded st (endpoints fsm) \<Longrightarrow> bounded (fst (convergeWeights g st fsm))"
  unfolding convergeWeights_def fst_conv
  by (rule normalizeWeights_bounded)
     (auto simp: bounded_def endpointsBounded_def list_all_iff intro: decrease_bounded)

lemma adjustWeights_bounded:
  "endpointsBounded st (endpoints fsm) \<Longrightarrow> bounded (adjustWeights g st fsm good bad)"
  unfolding adjustWeights_def
  by (rule normalizeWeights_bounded)
     (auto simp: bounded_def endpointsBounded_def list_all_iff)

lemma timer_frame [simp]:
  "endpoints (setTimer fsm) = endpoints fsm"
  "originalWeights (setTimer fsm) = originalWeights fsm"
  "lastWeights (setTimer fsm) = lastWeights fsm"
  "endpoints (snd (timerExpired fsm)) = endpoints fsm"
  "originalWeights (snd (timerExpired fsm)) = originalWeights fsm"
  "lastWeights (snd (timerExpired fsm)) = lastWeights fsm"
  by (simp_all add: setTimer_def timerExpired_def UtcNow_def Let_def)

lemma AdjustWeights_bounded:
  assumes "endpointsBounded st (endpoints fsm)"
    and "bounded (originalWeights fsm)" and "bounded (lastWeights fsm)"
    and "AdjustWeights g split st fsm = ((ws, err), fsm')"
  shows "bounded ws \<and> bounded (originalWeights fsm') \<and> bounded (lastWeights fsm')
      \<and> endpoints fsm' = endpoints fsm"
proof -
  let ?f1 = "snd (timerExpired fsm)"
  have c: "bounded (fst (convergeWeights g st ?f1))"
    using assms(1) by (simp add: convergeWeights_bounded)
  have a: "\<And>good bad. bounded (adjustWeights g st ?f1 good bad)"
    using assms(1) by (simp add: adjustWeights_bounded)
  show ?thesis
    using assms(2,3,4) c a
    by (auto simp: AdjustWeights_def Let_def split_beta split: if_splits)
qed

lemma Init_bounded:
  assumes "list_all (\<lambda>e. GetOriginalWeight (st e) \<le> FSMMaxWeight) es"
  shows "bounded (originalWeights (Init st es fsm)) \<and> bounded (lastWeights (Init st es fsm))
      \<and> endpoints (Init st es fsm) = es"
  using assms
  by (simp add: Init_def Let_def UtcNow_def makeOriginalWeights_def bounded_def list_all_iff)

lemma run_bounded:
  "callsBounded (endpoints fsm) evs \<Longrightarrow> bounded (originalWeights fsm) \<Longrightarrow>
   bounded (lastWeights fsm) \<Longrightarrow> list_all bounded (run g split fsm evs)"
proof (induction evs arbitrary: fsm)
  case Nil
  show ?case by simp
next
  case (Cons ev evs)
  show ?case
  proof (cases ev)
    case (InitCall st es)
    with Cons.prems have b: "list_all (\<lambda>e. GetOriginalWeight (st e) \<le> FSMMaxWeight) es"
      and rest: "callsBounded es evs" by simp_all
    from Init_bounded [OF b, of fsm] rest Cons.IH [of "Init st es fsm"] InitCall
    show ?thesis by simp
  next
    case (AdjustCall st)
    with Cons.prems have b: "endpointsBounded st (endpoints fsm)"
      and rest: "callsBounded (endpoints fsm) evs" by simp_all
    obtain ws err fsm' where r: "AdjustWeights g split st fsm = ((ws, err), fsm')"
      by (metis prod.exhaust)
    from AdjustWeights_bounded [OF b Cons.prems(2,3) r] rest Cons.IH [of fsm'] r AdjustCall
    show ?thesis by simp
  qed
qed

text \<open>
  Claim C7, as amended.  For a fresh handler and every sequence of \<open>Init\<close> and
  \<open>AdjustWeights\<close> calls in which the weights the handler reads from its endpoints are at
  most \<open>FSMMaxWeight\<close>, every weight in every list that \<open>AdjustWeights\<close> returns is at
  most \<open>FSMMaxWeight\<close>, whatever the classification into good and bad, the gcd helper
  and the clock are.
\<close>

theorem C7_published_weights_bounded:
  assumes "callsBounded [] evs"
  shows "list_all (list_all (\<lambda>w. Weight w \<le> FSMMaxWeight))
           (run g split (NewFSMHandlerWithOptions timeProvider) evs)"
proof -
  have "list_all bounded (run g split (NewFSMHandlerWithOptions timeProvider) evs)"
    using assms by (intro run_bounded) (simp_all add: NewFSMHandlerWithOptions_def bounded_def)
  then show ?thesis by (simp add: bounded_def [abs_def])
qed


theorem C7_published_weights_bounded_witness:
  "callsBounded [] [InitCall lightStore [0, 1], AdjustCall lightStore]
   \<and> list_all (list_all (\<lambda>w. Weight w \<le> FSMMaxWeight))
       (run gcd exampleSplit (NewFSMHandlerWithOptions frozenClock)
          [InitCall lightStore [0, 1], AdjustCall lightStore])"
proof -
  have h: "callsBounded [] [InitCall lightStore [0, 1], AdjustCall lightStore]"
    by (simp add: endpointsBounded_def lightStore_def FSMMaxWeight_def)
  show ?thesis by (rule conjI [OF h C7_published_weights_bounded [OF h]])
qed

text \<open>
  Claim C7 as stated fails: nothing in the handler bounds the weights it reads from the
  endpoints.  With two ready endpoints, one of weight 5001 classified bad and one of
  weight 1 classified good, \<open>AdjustWeights\<close> publishes 5001 and 16, and 5001 is above
  \<open>FSMMaxWeight\<close>.
\<close>

theorem C7_counterexample:
  "run gcd exampleSplit (NewFSMHandlerWithOptions frozenClock)
     [InitCall heavyStore [0, 1], AdjustCall heavyStore]
     = [[\<lparr>Endpoint = 0, Weight = 5001\<rparr>, \<lparr>Endpoint = 1, Weight = 16\<rparr>]]
   \<and> FSMMaxWeight < 5001"
  by (simp add: NewFSMHandlerWithOptions_def frozenClock_def heavyStore_def exampleSplit_def
      Init_def AdjustWeights_def Let_def UtcNow_def makeOriginalWeights_def metricsReady_def
      readyMeter_def timerExpired_def setTimer_def adjustWeights_def normalizeWeights_def
      weightsGcd_def increase_def int64_def FSMGrowFactor_def FSMMaxWeight_def Second_def
      gcd_non_0_int)

subsection \<open>Expiry of cursors\<close>

lemma filter_remove1_out: "\<not> P x \<Longrightarrow> filter P (remove1 x xs) = filter P xs"
  by (induction xs) auto

lemma peekFrom_least:
  "x \<in> set (best # rest) \<Longrightarrow> itemPriority (at (peekFrom at best rest)) \<le> itemPriority (at x)"
proof (induction rest arbitrary: best x)
  case Nil
  then show ?case by simp
next
  case (Cons i rest)
  let ?b = "if itemPriority (at i) < itemPriority (at best) then i else best"
  have le: "itemPriority (at (peekFrom at ?b rest)) \<le> itemPriority (at ?b)"
    using Cons.IH [of ?b ?b] by simp
  show ?case
  proof (cases "x \<in> set (?b # rest)")
    case True
    then show ?thesis using Cons.IH [of x ?b] by simp
  next
    case False
    then have "x = i \<or> x = best" using Cons.prems by auto
    then show ?thesis using le False by (auto split: if_splits)
  qed
qed

lemma Pop_Some:
  assumes "Pop cm = Some (i, cm1)"
  shows "i \<in> set (expiryTimes cm)"
    and "cm1 = cm\<lparr>expiryTimes := remove1 i (expiryTimes cm)\<rparr>"
    and "\<And>x. x \<in> set (expiryTimes cm) \<Longrightarrow> itemPriority (itemAt cm i) \<le> itemPriority (itemAt cm x)"
proof -
  from assms obtain j rest where q: "expiryTimes cm = j # rest"
    and i: "i = peekFrom (itemAt cm) j rest"
    and cm1: "cm1 = cm\<lparr>expiryTimes := remove1 i (expiryTimes cm)\<rparr>"
    by (auto simp: Pop_def Peek_def split: list.splits)
  show "i \<in> set (expiryTimes cm)" using q i peekFrom_in by metis
  show "cm1 = cm\<lparr>expiryTimes := remove1 i (expiryTimes cm)\<rparr>" by (rule cm1)
  fix x assume "x \<in> set (expiryTimes cm)"
  then show "itemPriority (itemAt cm i) \<le> itemPriority (itemAt cm x)"
    using q i peekFrom_least [of x j rest "itemAt cm"] by simp
qed

lemma Pop_None: "Pop cm = None \<longleftrightarrow> expiryTimes cm = []"
  by (simp add: Pop_def Peek_def split: list.splits)

lemma Pop_Peek: "Pop cm = Some (i, cm1) \<Longrightarrow> Peek cm = Some i \<and> itemAt cm1 = itemAt cm"
  by (auto simp: Pop_def split: option.splits)

lemma gc_unfold:
  "deleteExpiredCursors now cm =
     (case Pop cm of
        None \<Rightarrow> cm
      | Some (i, cm1) \<Rightarrow>
          if itemPriority (itemAt cm i) > now then cm
          else deleteExpiredCursors now (snd (deleteCursor (itemCursor (itemAt cm i)) cm1)))"
proof (cases "Pop cm")
  case None
  then have "Peek cm = None" by (simp add: Pop_def split: option.splits)
  then show ?thesis using None by (simp add: deleteExpiredCursors.simps [of now cm])
next
  case (Some p)
  obtain i cm1 where p: "p = (i, cm1)" by (cases p)
  have pk: "Peek cm = Some i" "itemAt cm1 = itemAt cm" using Pop_Peek Some p by auto
  then have "expiryTimes cm \<noteq> []" by (auto simp: Peek_def)
  then show ?thesis using Some p pk by (simp add: deleteExpiredCursors.simps [of now cm])
qed

lemma gc_induct:
  assumes "\<And>now cm.
      (\<And>p i cm1. Pop cm = Some p \<Longrightarrow> (i, cm1) = p \<Longrightarrow> \<not> now < itemPriority (itemAt cm i) \<Longrightarrow>
         P now (snd (deleteCursor (itemCursor (itemAt cm i)) cm1))) \<Longrightarrow> P now cm"
  shows "P now cm"
proof (induction now cm rule: deleteExpiredCursors.induct)
  case (1 now cm)
  show ?case
  proof (rule assms)
    fix p i cm1
    assume pop: "Pop cm = Some p" "(i, cm1) = p" and late: "\<not> now < itemPriority (itemAt cm i)"
    then have pk: "Peek cm = Some i" "itemAt cm1 = itemAt cm" using Pop_Peek by auto
    then have ne: "length (expiryTimes cm) \<noteq> 0" by (auto simp: Peek_def)
    from "1.IH" [OF ne pk(1) late pop] pk(2)
    show "P now (snd (deleteCursor (itemCursor (itemAt cm i)) cm1))" by simp
  qed
qed

lemma deleteCursor_frame [simp]:
  "itemAt (snd (deleteCursor a cm)) = itemAt cm"
  "cursorAt (snd (deleteCursor a cm)) = cursorAt cm"
  by (simp_all add: deleteCursor_def Let_def split: option.splits)

lemma gc_frame:
  "itemAt (deleteExpiredCursors now cm) = itemAt cm \<and>
   cursorAt (deleteExpiredCursors now cm) = cursorAt cm"
proof (induction now cm rule: gc_induct)
  case (1 now cm)
  show ?case
  proof (cases "Pop cm")
    case None
    then show ?thesis by (simp add: gc_unfold [of now cm])
  next
    case (Some p)
    obtain i cm1 where p: "p = (i, cm1)" by (cases p)
    have cm1: "cm1 = cm\<lparr>expiryTimes := remove1 i (expiryTimes cm)\<rparr>"
      using Pop_Some(2) Some p by simp
    show ?thesis
    proof (cases "itemPriority (itemAt cm i) > now")
      case True
      then show ?thesis using Some p by (simp add: gc_unfold [of now cm])
    next
      case False
      then show ?thesis
        using Some p "1.IH" [OF Some p [symmetric] False] cm1
        by (simp add: gc_unfold [of now cm])
    qed
  qed
qed

lemma gc_queue:
  "expiryTimes (deleteExpiredCursors now cm)
     = filter (\<lambda>i. now < itemPriority (itemAt cm i)) (expiryTimes cm)"
proof (induction now cm rule: gc_induct)
  case (1 now cm)
  show ?case
  proof (cases "Pop cm")
    case None
    then have "expiryTimes cm = []" by (simp add: Pop_None)
    then show ?thesis using None by (simp add: gc_unfold [of now cm])
  next
    case (Some p)
    obtain i cm1 where p: "p = (i, cm1)" by (cases p)
    note pop = Pop_Some [OF Some [unfolded p]]
    show ?thesis
    proof (cases "itemPriority (itemAt cm i) > now")
      case True
      then have "\<And>x. x \<in> set (expiryTimes cm) \<Longrightarrow> now < itemPriority (itemAt cm x)"
        using pop(3) by fastforce
      then have "filter (\<lambda>i. now < itemPriority (itemAt cm i)) (expiryTimes cm) = expiryTimes cm"
        by (simp add: filter_id_conv)
      then show ?thesis using Some p True by (simp add: gc_unfold [of now cm])
    next
      case False
      let ?cm2 = "snd (deleteCursor (itemCursor (itemAt cm i)) cm1)"
      have "expiryTimes (deleteExpiredCursors now cm) = expiryTimes (deleteExpiredCursors now ?cm2)"
        using Some p False by (simp add: gc_unfold [of now cm])
      also have "\<dots> = filter (\<lambda>i. now < itemPriority (itemAt ?cm2 i)) (expiryTimes ?cm2)"
        using "1.IH" [OF Some p [symmetric] False] .
      also have "\<dots> = filter (\<lambda>i. now < itemPriority (itemAt cm i)) (remove1 i (expiryTimes cm))"
        using pop(2) by (simp add: expiryTimes_deleteCursor)
      also have "\<dots> = filter (\<lambda>i. now < itemPriority (itemAt cm i)) (expiryTimes cm)"
        using False by (simp add: filter_remove1_out)
      finally show ?thesis .
    qed
  qed
qed
lemma indexFrom_found:
  "a \<in> set cs \<Longrightarrow> \<exists>k<length cs. indexFrom i a cs = i + int k \<and> cs ! k = a"
proof (induction cs arbitrary: i)
  case Nil
  then show ?case by simp
next
  case (Cons c2 rest)
  show ?case
  proof (cases "c2 = a")
    case True
    then show ?thesis by (intro exI [of _ 0]) simp
  next
    case False
    then have "a \<in> set rest" using Cons.prems by simp
    from Cons.IH [OF this, of "i + 1"]
    obtain k where "k < length rest" "indexFrom (i + 1) a rest = i + 1 + int k" "rest ! k = a"
      by blast
    then show ?thesis using False by (intro exI [of _ "Suc k"]) simp
  qed
qed

lemma mset_without_nth:
  "k < length cs \<Longrightarrow> mset (take k cs @ drop (Suc k) cs) + {#cs ! k#} = mset cs"
proof -
  assume "k < length cs"
  then have "cs = take k cs @ cs ! k # drop (Suc k) cs" by (rule id_take_nth_drop)
  then have "mset cs = mset (take k cs @ cs ! k # drop (Suc k) cs)" by simp
  then show ?thesis by simp
qed

lemma buckets_delete:
  "distinct (map fst xs) \<Longrightarrow> map_of xs h = Some cs \<Longrightarrow>
   mset (concat (map snd xs)) = mset cs + mset (concat (map snd (AList.delete h xs)))"
proof (induction xs)
  case Nil
  then show ?case by simp
next
  case (Cons p xs)
  obtain k v where p: "p = (k, v)" by (cases p)
  show ?case
  proof (cases "k = h")
    case True
    then have "h \<notin> fst ` set xs" using Cons.prems p by auto
    then have "AList.delete h xs = xs" by simp
    then show ?thesis using Cons.prems p True by simp
  next
    case False
    then show ?thesis using Cons p by simp
  qed
qed

lemma buckets_update:
  "distinct (map fst xs) \<Longrightarrow> map_of xs h = Some cs \<Longrightarrow>
   mset (concat (map snd (AList.update h cs' xs))) + mset cs = mset (concat (map snd xs)) + mset cs'"
proof (induction xs)
  case Nil
  then show ?case by simp
next
  case (Cons p xs)
  obtain k v where p: "p = (k, v)" by (cases p)
  show ?case
  proof (cases "k = h")
    case True
    then show ?thesis using Cons.prems p by simp
  next
    case False
    then have "mset (concat (map snd (AList.update h cs' xs))) + mset cs
        = mset (concat (map snd xs)) + mset cs'"
      using Cons p by simp
    then show ?thesis using False p by (simp add: ac_simps)
  qed
qed

lemma set_update_subset: "set (AList.update h v xs) \<subseteq> insert (h, v) (set xs)"
  by (induction xs) auto

lemma set_delete_subset: "set (AList.delete h xs) \<subseteq> set xs"
  by (auto simp: AList.delete_eq)

lemma distinct_map_remove1: "distinct (map f q) \<Longrightarrow> distinct (map f (remove1 x q))"
proof (induction q)
  case Nil
  then show ?case by simp
next
  case (Cons y q)
  have "set (remove1 x q) \<subseteq> set q" by (rule set_remove1_subset)
  then show ?case using Cons by auto
qed

lemma mset_map_remove1:
  "x \<in> set q \<Longrightarrow> mset (map f q) = {#f x#} + mset (map f (remove1 x q))"
  by (induction q) auto

lemma deleteCursor_wellFormed:
  assumes wf: "wellFormed cm" and i: "i \<in> set (expiryTimes cm)"
  shows "wellFormed (snd (deleteCursor (itemCursor (itemAt cm i))
            (cm\<lparr>expiryTimes := remove1 i (expiryTimes cm)\<rparr>)))"
proof -
  let ?a = "itemCursor (itemAt cm i)"
  let ?cm1 = "cm\<lparr>expiryTimes := remove1 i (expiryTimes cm)\<rparr>"
  from wf have dk: "distinct (map fst (cursors cm))"
    and hs: "\<And>h cs a. (h, cs) \<in> set (cursors cm) \<Longrightarrow> a \<in> set cs \<Longrightarrow> curHash (cursorAt cm a) = h"
    and dq: "distinct (queueCursors cm)"
    and eq: "mset (queueCursors cm) = mset (allCursors cm)"
    by (auto simp: wellFormed_def list_all_iff)
  have "?a \<in> set (queueCursors cm)" using i by (simp add: queueCursors_def)
  then have "?a \<in> set (allCursors cm)" using eq by (metis mset_eq_setD)
  then obtain h cs where b: "(h, cs) \<in> set (cursors cm)" and acs: "?a \<in> set cs"
    by (auto simp: allCursors_def)
  have h: "curHash (cursorAt cm ?a) = h" using hs [OF b acs] .
  have look: "map_of (cursors cm) h = Some cs" using dk b by simp
  from indexFrom_found [OF acs, of 0]
  obtain k where k: "k < length cs" "indexFrom 0 ?a cs = int k" "cs ! k = ?a" by auto
  let ?cs' = "take k cs @ drop (Suc k) cs"
  have cs': "mset ?cs' + {#?a#} = mset cs" using mset_without_nth [OF k(1)] k(3) by simp
  have q1: "mset (queueCursors cm) = {#?a#} + mset (queueCursors ?cm1)"
    using mset_map_remove1 [OF i, of "\<lambda>i. itemCursor (itemAt cm i)"]
    by (simp add: queueCursors_def)
  have dq1: "distinct (queueCursors ?cm1)"
    using dq distinct_map_remove1 [of "\<lambda>i. itemCursor (itemAt cm i)" "expiryTimes cm" i]
    by (simp add: queueCursors_def)
  show ?thesis
  proof (cases "k = 0 \<and> length cs = 1")
    case True
    then have res: "snd (deleteCursor ?a ?cm1) = ?cm1\<lparr>cursors := AList.delete h (cursors cm)\<rparr>"
      using h look k by (simp add: deleteCursor_def cursorIndex_def Let_def)
    have csa: "mset cs = {#?a#}" using True cs' by simp
    have "mset (allCursors cm) = mset cs + mset (concat (map snd (AList.delete h (cursors cm))))"
      using buckets_delete [OF dk look] by (simp add: allCursors_def)
    then have m: "mset (queueCursors ?cm1) = mset (concat (map snd (AList.delete h (cursors cm))))"
      using q1 eq csa by simp
    have "\<And>h' cs' a. (h', cs') \<in> set (AList.delete h (cursors cm)) \<Longrightarrow> a \<in> set cs' \<Longrightarrow>
        curHash (cursorAt cm a) = h'"
      using hs set_delete_subset by (metis subsetD)
    then show ?thesis
      unfolding res using dk dq1 m
      by (auto simp: wellFormed_def list_all_iff allCursors_def queueCursors_def
          AList.distinct_delete)
  next
    case False
    then have res: "snd (deleteCursor ?a ?cm1) = ?cm1\<lparr>cursors := AList.update h ?cs' (cursors cm)\<rparr>"
      using h look k by (auto simp: deleteCursor_def cursorIndex_def Let_def)
    have "mset (concat (map snd (AList.update h ?cs' (cursors cm)))) + mset cs
        = mset (allCursors cm) + mset ?cs'"
      using buckets_update [OF dk look] by (simp add: allCursors_def)
    then have "mset (concat (map snd (AList.update h ?cs' (cursors cm)))) + (mset ?cs' + {#?a#})
        = ({#?a#} + mset (queueCursors ?cm1)) + mset ?cs'"
      using cs' q1 eq by simp
    then have m: "mset (queueCursors ?cm1) = mset (concat (map snd (AList.update h ?cs' (cursors cm))))"
      by (simp add: ac_simps)
    have sub: "set ?cs' \<subseteq> set cs"
      by (auto dest: in_set_takeD in_set_dropD)
    have "\<And>h' cs'' a. (h', cs'') \<in> set (AList.update h ?cs' (cursors cm)) \<Longrightarrow> a \<in> set cs'' \<Longrightarrow>
        curHash (cursorAt cm a) = h'"
    proof -
      fix h' cs'' a
      assume "(h', cs'') \<in> set (AList.update h ?cs' (cursors cm))" and a: "a \<in> set cs''"
      then have "(h', cs'') = (h, ?cs') \<or> (h', cs'') \<in> set (cursors cm)"
        using set_update_subset by fastforce
      then show "curHash (cursorAt cm a) = h'"
      proof
        assume "(h', cs'') = (h, ?cs')"
        then have "a \<in> set cs" "h' = h" using a sub by auto
        then show ?thesis using hs [OF b] by simp
      next
        assume "(h', cs'') \<in> set (cursors cm)"
        then show ?thesis using hs a by blast
      qed
    qed
    then show ?thesis
      unfolding res using dk dq1 m
      by (auto simp: wellFormed_def list_all_iff allCursors_def queueCursors_def
          AList.distinct_update)
  qed
qed
lemma gc_wellFormed: "wellFormed cm \<Longrightarrow> wellFormed (deleteExpiredCursors now cm)"
proof (induction now cm rule: gc_induct)
  case (1 now cm)
  show ?case
  proof (cases "Pop cm")
    case None
    then show ?thesis using "1.prems" by (simp add: gc_unfold [of now cm])
  next
    case (Some p)
    obtain i cm1 where p: "p = (i, cm1)" by (cases p)
    note pop = Pop_Some [OF Some [unfolded p]]
    show ?thesis
    proof (cases "itemPriority (itemAt cm i) > now")
      case True
      then show ?thesis using Some p "1.prems" by (simp add: gc_unfold [of now cm])
    next
      case False
      have "wellFormed (snd (deleteCursor (itemCursor (itemAt cm i)) cm1))"
        using deleteCursor_wellFormed [OF "1.prems" pop(1)] pop(2) by simp
      from "1.IH" [OF Some p [symmetric] False this]
      show ?thesis using Some p False by (simp add: gc_unfold [of now cm])
    qed
  qed
qed

lemma indexFrom_single: "length cs = 1 \<Longrightarrow> indexFrom 0 a cs = 0 \<or> indexFrom 0 a cs = -1"
  by (cases cs) auto

lemma deleteCursor_singleBuckets:
  assumes "singleBuckets cm"
  shows "singleBuckets (snd (deleteCursor a cm))"
proof (cases "map_of (cursors cm) (curHash (cursorAt cm a))")
  case None
  then show ?thesis using assms by (simp add: deleteCursor_def)
next
  case (Some cs)
  then have "(curHash (cursorAt cm a), cs) \<in> set (cursors cm)" by (rule map_of_SomeD)
  then have len: "length cs = 1" using assms by (auto simp: singleBuckets_def list_all_iff)
  have sub: "\<And>p. p \<in> set (AList.delete (curHash (cursorAt cm a)) (cursors cm)) \<Longrightarrow> p \<in> set (cursors cm)"
    using set_delete_subset by fastforce
  from indexFrom_single [OF len, of a] show ?thesis
    using Some len assms sub
    by (auto simp: deleteCursor_def cursorIndex_def Let_def singleBuckets_def list_all_iff)
qed

lemma gc_singleBuckets: "singleBuckets cm \<Longrightarrow> singleBuckets (deleteExpiredCursors now cm)"
proof (induction now cm rule: gc_induct)
  case (1 now cm)
  show ?case
  proof (cases "Pop cm")
    case None
    then show ?thesis using "1.prems" by (simp add: gc_unfold [of now cm])
  next
    case (Some p)
    obtain i cm1 where p: "p = (i, cm1)" by (cases p)
    note pop = Pop_Some [OF Some [unfolded p]]
    show ?thesis
    proof (cases "itemPriority (itemAt cm i) > now")
      case True
      then show ?thesis using Some p "1.prems" by (simp add: gc_unfold [of now cm])
    next
      case False
      have "singleBuckets cm1" using "1.prems" pop(2) by (simp add: singleBuckets_def)
      then have "singleBuckets (snd (deleteCursor (itemCursor (itemAt cm i)) cm1))"
        by (rule deleteCursor_singleBuckets)
      from "1.IH" [OF Some p [symmetric] False this]
      show ?thesis using Some p False by (simp add: gc_unfold [of now cm])
    qed
  qed
qed

lemma singleBuckets_length: "singleBuckets cm \<Longrightarrow> length (allCursors cm) = length (cursors cm)"
proof -
  have "list_all (\<lambda>(h, cs). length cs = 1) xs \<Longrightarrow> length (concat (map snd xs)) = length xs"
    for xs :: "(32 word \<times> ref list) list"
    by (induction xs) auto
  then show "singleBuckets cm \<Longrightarrow> length (allCursors cm) = length (cursors cm)"
    by (simp add: singleBuckets_def allCursors_def)
qed

lemma gc_nothing_expired:
  assumes "\<And>i. i \<in> set (expiryTimes cm) \<Longrightarrow> now < itemPriority (itemAt cm i)"
  shows "deleteExpiredCursors now cm = cm"
proof (cases "Pop cm")
  case None
  then show ?thesis by (simp add: gc_unfold [of now cm])
next
  case (Some p)
  obtain i cm1 where p: "p = (i, cm1)" by (cases p)
  have "now < itemPriority (itemAt cm i)" using Pop_Some(1) [OF Some [unfolded p]] assms by simp
  then show ?thesis using Some p by (simp add: gc_unfold [of now cm])
qed

lemma gc_idempotent:
  "deleteExpiredCursors now (deleteExpiredCursors now cm) = deleteExpiredCursors now cm"
  by (rule gc_nothing_expired) (simp add: gc_queue gc_frame)

text \<open>
  Claim C8.  For a well-formed table (each cursor of the map in exactly one queue slot)
  and every \<open>now\<close>: after \<open>deleteExpiredCursors now\<close> the table is well formed again,
  every cursor left in the map is the cursor of a queue item whose priority is later than
  \<open>now\<close>, every queue item left has a priority later than \<open>now\<close>, the queue has as
  many items as the map has cursors (and as the map has keys, when no two cursors share a
  hash), and running it again with the same \<open>now\<close> changes nothing.
\<close>

theorem C8_gc_complete:
  assumes "wellFormed cm"
  shows "(let cm' = deleteExpiredCursors now cm
          in wellFormed cm'
             \<and> list_all (\<lambda>a. list_ex (\<lambda>i. itemCursor (itemAt cm' i) = a \<and> now < itemPriority (itemAt cm' i))
                                (expiryTimes cm')) (allCursors cm')
             \<and> list_all (\<lambda>i. now < itemPriority (itemAt cm' i)) (expiryTimes cm')
             \<and> length (expiryTimes cm') = length (allCursors cm')
             \<and> (if singleBuckets cm then length (expiryTimes cm') = length (cursors cm') else True)
             \<and> deleteExpiredCursors now cm' = cm')"
proof -
  let ?cm' = "deleteExpiredCursors now cm"
  have wf': "wellFormed ?cm'" using assms by (rule gc_wellFormed)
  have live: "\<And>i. i \<in> set (expiryTimes ?cm') \<Longrightarrow> now < itemPriority (itemAt ?cm' i)"
    by (simp add: gc_queue gc_frame)
  have eq: "mset (queueCursors ?cm') = mset (allCursors ?cm')"
    using wf' by (simp add: wellFormed_def)
  have "\<And>a. a \<in> set (allCursors ?cm') \<Longrightarrow>
      \<exists>i\<in>set (expiryTimes ?cm'). itemCursor (itemAt ?cm' i) = a \<and> now < itemPriority (itemAt ?cm' i)"
  proof -
    fix a assume "a \<in> set (allCursors ?cm')"
    then have "a \<in> set (queueCursors ?cm')" using eq by (metis mset_eq_setD)
    then obtain i where "i \<in> set (expiryTimes ?cm')" "itemCursor (itemAt ?cm' i) = a"
      by (auto simp: queueCursors_def)
    then show "\<exists>i\<in>set (expiryTimes ?cm'). itemCursor (itemAt ?cm' i) = a \<and> now < itemPriority (itemAt ?cm' i)"
      using live by blast
  qed
  then have c1: "list_all (\<lambda>a. list_ex (\<lambda>i. itemCursor (itemAt ?cm' i) = a \<and> now < itemPriority (itemAt ?cm' i))
                                (expiryTimes ?cm')) (allCursors ?cm')"
    by (simp add: list_all_iff list_ex_iff)
  have c2: "list_all (\<lambda>i. now < itemPriority (itemAt ?cm' i)) (expiryTimes ?cm')"
    using live by (simp add: list_all_iff)
  have "size (mset (queueCursors ?cm')) = size (mset (allCursors ?cm'))" using eq by simp
  then have c3: "length (expiryTimes ?cm') = length (allCursors ?cm')"
    by (simp add: queueCursors_def)
  have c4: "singleBuckets cm \<Longrightarrow> length (expiryTimes ?cm') = length (cursors ?cm')"
    using c3 gc_singleBuckets [of cm now] singleBuckets_length [of ?cm'] by simp
  show ?thesis
    using wf' c1 c2 c3 c4 gc_idempotent [of now cm] by (simp add: Let_def)
qed

lemma exampleTable_wellFormed: "wellFormed exampleTable"
  by (simp add: wellFormed_def exampleTable_def queueCursors_def allCursors_def)

theorem C8_gc_complete_witness:
  "wellFormed exampleTable
   \<and> (let cm' = deleteExpiredCursors 15 exampleTable
      in wellFormed cm'
         \<and> list_all (\<lambda>a. list_ex (\<lambda>i. itemCursor (itemAt cm' i) = a \<and> 15 < itemPriority (itemAt cm' i))
                            (expiryTimes cm')) (allCursors cm')
         \<and> list_all (\<lambda>i. 15 < itemPriority (itemAt cm' i)) (expiryTimes cm')
         \<and> length (expiryTimes cm') = length (allCursors cm')
         \<and> (if singleBuckets exampleTable then length (expiryTimes cm') = length (cursors cm') else True)
         \<and> deleteExpiredCursors 15 cm' = cm')"
  by (rule conjI [OF exampleTable_wellFormed C8_gc_complete [OF exampleTable_wellFormed]])

lemma exampleTable_gc:
  "cursors (deleteExpiredCursors 15 exampleTable) = [(84696445, [1])]
   \<and> expiryTimes (deleteExpiredCursors 15 exampleTable) = [1]"
  by (simp add: gc_unfold [of 15] Pop_def Peek_def exampleTable_def
      deleteCursor_def cursorIndex_def Let_def)

subsection \<open>Cursor lookup\<close>

lemma fnvWrite_append: "fnvWrite h (s @ t) = fnvWrite (fnvWrite h s) t"
  by (simp add: fnvWrite_def)

lemma computeHash_concat: "computeHash eps = fnvWrite fnvOffset32 (concat (map Id eps))"
proof -
  have "fold (\<lambda>e acc. fnvWrite acc (Id e)) eps h = fnvWrite h (concat (map Id eps))" for h
    by (induction eps arbitrary: h) (simp_all add: fnvWrite_append, simp add: fnvWrite_def)
  then show ?thesis by (simp add: computeHash_def)
qed

lemma colliding_hash: "computeHash collidingB = computeHash collidingA"
  by (simp add: computeHash_concat collidingA_def collidingB_def)

lemma find_last_only:
  "(\<And>x. x \<in> set xs \<Longrightarrow> P x \<Longrightarrow> x = a) \<Longrightarrow> P a \<Longrightarrow> find P (xs @ [a]) = Some a"
  by (induction xs) auto

lemma sameEndpoints_newCursor: "sameEndpoints ((newCursor eps)\<lparr>curItem := i\<rparr>) eps"
  by (simp add: sameEndpoints_def newCursor_def list_all2_conv_all_nth)

lemma getCursor_Update [simp]: "getCursor eps (Update i p cm) = getCursor eps cm"
  by (simp add: getCursor_def Update_def split: option.splits)

lemma upsertCursor_same_again:
  assumes "upsertCursor eps t1 cm = Inr (a, cm1)"
  shows "\<exists>cm2. upsertCursor eps t2 cm1 = Inr (a, cm2)"
proof (cases "getCursor eps cm")
  case (Some a')
  with assms obtain i where i: "curItem (cursorAt cm a') = Some i" and a: "a = a'"
    and cm1: "cm1 = Update i t1 cm"
    by (auto simp: upsertCursor_def split: option.splits)
  have "curItem (cursorAt cm1 a) = Some i" using i a cm1 by (simp add: Update_def)
  moreover have "getCursor eps cm1 = Some a" using Some a cm1 by simp
  ultimately show ?thesis by (simp add: upsertCursor_def)
next
  case None
  let ?h = "computeHash eps"
  let ?a = "nextCursor cm"
  let ?new = "(newCursor eps)\<lparr>curItem := Some (nextItem cm)\<rparr>"
  let ?bucket = "(case map_of (cursors cm) ?h of None \<Rightarrow> [?a] | Some cs \<Rightarrow> cs @ [?a])"
  from assms None have a: "a = ?a"
    and cs1: "cursors cm1 = AList.update ?h ?bucket (cursors cm)"
    and at1: "cursorAt cm1 = (cursorAt cm)(?a := ?new)"
    by (auto simp: upsertCursor_def addCursor_def Let_def Push_def newCursor_def
        split: option.splits)
  have look: "map_of (cursors cm1) ?h = Some ?bucket" using cs1 by (simp add: AList.update_conv')
  have item: "curItem (cursorAt cm1 a) = Some (nextItem cm)" using a at1 by simp
  have same: "sameEndpoints (cursorAt cm1 ?a) eps" using at1 by (simp add: sameEndpoints_newCursor)
  have "getCursor eps cm1 = Some a"
  proof (cases "map_of (cursors cm) ?h")
    case None
    then show ?thesis using look a by (simp add: getCursor_def)
  next
    case (Some cs)
    with \<open>getCursor eps cm = None\<close> have ne: "length cs \<noteq> 1"
      and nf: "find (\<lambda>x. sameEndpoints (cursorAt cm x) eps) cs = None"
      by (auto simp: getCursor_def split: if_splits)
    have b: "?bucket = cs @ [?a]" using Some by simp
    show ?thesis
    proof (cases "cs = []")
      case True
      then show ?thesis using look b a by (simp add: getCursor_def)
    next
      case False
      then have len: "length (cs @ [?a]) \<noteq> 1" by (cases cs) auto
      have "\<And>x. x \<in> set cs \<Longrightarrow> sameEndpoints (cursorAt cm1 x) eps \<Longrightarrow> x = ?a"
      proof (rule ccontr)
        fix x assume x: "x \<in> set cs" "sameEndpoints (cursorAt cm1 x) eps" "x \<noteq> ?a"
        then have "sameEndpoints (cursorAt cm x) eps" using at1 by simp
        then show False using nf x(1) by (auto simp: find_None_iff)
      qed
      then have "find (\<lambda>x. sameEndpoints (cursorAt cm1 x) eps) (cs @ [?a]) = Some ?a"
        using same by (rule find_last_only)
      then show ?thesis using look b len a by (simp add: getCursor_def)
    qed
  qed
  then show ?thesis using item by (simp add: upsertCursor_def)
qed

text \<open>
  Claim C3 says that \<open>upsertCursor\<close> with a different id sequence never returns a
  cursor created before.  \<open>getCursor\<close> returns the only cursor of a bucket without
  comparing ids, and the hash runs over the concatenated ids: starting from the empty
  table, \<open>upsertCursor\<close> for the ids \<open>ab\<close>, \<open>c\<close> creates cursor 0, and \<open>upsertCursor\<close>
  for the different ids \<open>a\<close>, \<open>bc\<close> returns cursor 0 again, which still holds the ids
  \<open>ab\<close>, \<open>c\<close>.
\<close>

theorem C3_collision_returns_other_cursor:
  "map Id collidingA \<noteq> map Id collidingB
   \<and> (\<exists>cm1 cm2. upsertCursor collidingA 10 newCursorMap = Inr (0, cm1)
                \<and> upsertCursor collidingB 20 cm1 = Inr (0, cm2)
                \<and> curEndpointIds (cursorAt cm2 0) = map Id collidingA)"
proof -
  have ne: "map Id collidingA \<noteq> map Id collidingB"
    by (simp add: collidingA_def collidingB_def)
  let ?h = "computeHash collidingA"
  let ?cm1 = "snd (projr (upsertCursor collidingA 10 newCursorMap))"
  have first: "upsertCursor collidingA 10 newCursorMap = Inr (0, ?cm1)"
    by (simp add: upsertCursor_def getCursor_def addCursor_def newCursorMap_def Let_def Push_def)
  have c1: "cursors ?cm1 = [(?h, [0])]" "curItem (cursorAt ?cm1 0) = Some 0"
      "curEndpointIds (cursorAt ?cm1 0) = map Id collidingA"
    by (simp_all add: upsertCursor_def getCursor_def addCursor_def newCursorMap_def Let_def
        Push_def newCursor_def)
  have "getCursor collidingB ?cm1 = Some 0"
    using c1(1) by (simp add: getCursor_def colliding_hash)
  then have second: "upsertCursor collidingB 20 ?cm1 = Inr (0, Update 0 20 ?cm1)"
    using c1(2) by (simp add: upsertCursor_def)
  have "curEndpointIds (cursorAt (Update 0 20 ?cm1) 0) = map Id collidingA"
    using c1(3) by (simp add: Update_def)
  with ne first second show ?thesis by blast
qed
end
